theory Spec2Isabelle
  imports Main "HOL-Library.Word"
begin

unbundle bit_operations_syntax

section \<open>Byte sources and sinks\<close>

text \<open>
  The three codecs of the repository (packages \<open>avc\<close>, \<open>hevc\<close> and \<open>dovi\<close>) read from an
  \<open>io.Reader\<close> and write to an \<open>io.Writer\<close>, through \<open>binary.Read\<close>, \<open>binary.Write\<close>,
  \<open>io.ReadFull\<close> and \<open>Write\<close>. The only errors they return are the ones these calls return.
\<close>

type_synonym byte = "8 word"

datatype error = EOF | ErrUnexpectedEOF | ErrShortWrite

text \<open>
  A byte source is the list of bytes still to come. \<open>ReadFull n r\<close> is \<open>io.ReadFull\<close> on a
  buffer of \<open>n\<close> zero bytes: it fills the buffer, or it stops with \<open>io.EOF\<close> when no byte was read
  and \<open>io.ErrUnexpectedEOF\<close> when some but not all were. The buffer comes back as it is left:
  the bytes read, followed by the zeros never overwritten.
\<close>

type_synonym reader = "byte list"

definition ReadFull :: "nat \<Rightarrow> reader \<Rightarrow> error option \<times> byte list \<times> reader" where
  "ReadFull n r =
     (if n \<le> length r then (None, take n r, drop n r)
      else (Some (if r = [] then EOF else ErrUnexpectedEOF), r @ replicate (n - length r) 0, []))"

text \<open>
  \<open>binary.Read\<close> of \<open>n\<close> bytes reads into a buffer of its own and hands the bytes over only
  when all of them came: on an error the destination is untouched.
\<close>

definition binary_Read :: "nat \<Rightarrow> reader \<Rightarrow> (error + byte list) \<times> reader" where
  "binary_Read n r =
     (case ReadFull n r of
        (Some e, buf, r') \<Rightarrow> (Inl e, r')
      | (None, buf, r') \<Rightarrow> (Inr buf, r'))"

text \<open>Big-endian values, as \<open>binary.BigEndian\<close> lays them out.\<close>

definition be16 :: "16 word \<Rightarrow> byte list" where
  "be16 x = [ucast (drop_bit 8 x), ucast x]"

definition be32 :: "32 word \<Rightarrow> byte list" where
  "be32 x = [ucast (drop_bit 24 x), ucast (drop_bit 16 x), ucast (drop_bit 8 x), ucast x]"

definition from_be16 :: "byte list \<Rightarrow> 16 word" where
  "from_be16 bs = push_bit 8 (ucast (bs ! 0)) OR ucast (bs ! 1)"

text \<open>
  A byte sink is the bytes written so far and the room left (\<open>None\<close>: no limit, as a
  \<open>bytes.Buffer\<close>). A write that does not fit fails; the codecs then return the error at once,
  and what a failed sink holds is not looked at again.
\<close>

record sink =
  written :: "byte list"
  room :: "nat option"

definition Write :: "byte list \<Rightarrow> sink \<Rightarrow> error + sink" where
  "Write bs w =
     (case room w of
        None \<Rightarrow> Inr (w\<lparr>written := written w @ bs\<rparr>)
      | Some k \<Rightarrow>
          if length bs \<le> k then Inr (w\<lparr>written := written w @ bs, room := Some (k - length bs)\<rparr>)
          else Inl ErrShortWrite)"

text \<open>
  A run of writes, each guarded by \<open>if err != nil { return }\<close>: the first error ends the run.
\<close>

fun write_all :: "(sink \<Rightarrow> error + sink) list \<Rightarrow> sink \<Rightarrow> error + sink" where
  "write_all [] w = Inr w"
| "write_all (f # fs) w = (case f w of Inl e \<Rightarrow> Inl e | Inr w' \<Rightarrow> write_all fs w')"

definition write_u8 :: "byte \<Rightarrow> sink \<Rightarrow> error + sink" where
  "write_u8 x = Write [x]"

definition write_u16 :: "16 word \<Rightarrow> sink \<Rightarrow> error + sink" where
  "write_u16 x = Write (be16 x)"

definition write_u32 :: "32 word \<Rightarrow> sink \<Rightarrow> error + sink" where
  "write_u32 x = Write (be32 x)"

definition buffer :: sink where
  "buffer = \<lparr>written = [], room = None\<rparr>"


section \<open>Dolby Vision configuration record (package dovi)\<close>

record DOVIDecoderConfigurationRecord =
  VersionMajor :: byte
  VersionMinor :: byte
  Profile :: byte
  Level :: byte
  RPUPresent :: bool
  ELPresent :: bool
  BLPresent :: bool
  BLSignalCompatibilityID :: byte

definition dovi_zero :: DOVIDecoderConfigurationRecord where
  "dovi_zero = \<lparr>VersionMajor = 0, VersionMinor = 0, Profile = 0, Level = 0,
     RPUPresent = False, ELPresent = False, BLPresent = False, BLSignalCompatibilityID = 0\<rparr>"

definition dovi_RecordSize :: "DOVIDecoderConfigurationRecord \<Rightarrow> 32 word" where
  "dovi_RecordSize b = 24"

definition dovi_RecordRead ::
  "DOVIDecoderConfigurationRecord \<Rightarrow> reader \<Rightarrow> error option \<times> DOVIDecoderConfigurationRecord \<times> reader" where
  "dovi_RecordRead b r =
     (case binary_Read 24 r of
        (Inl e, r') \<Rightarrow> (Some e, b, r')
      | (Inr tmp, r') \<Rightarrow>
          (None,
           b\<lparr>VersionMajor := tmp ! 0,
             VersionMinor := tmp ! 1,
             Profile := drop_bit 1 (tmp ! 2),
             Level := push_bit 5 (tmp ! 2 AND 1) OR drop_bit 3 (tmp ! 3 AND 248),
             RPUPresent := (tmp ! 3 AND 4 > 0),
             ELPresent := (tmp ! 3 AND 2 > 0),
             BLPresent := (tmp ! 3 AND 1 > 0),
             BLSignalCompatibilityID := drop_bit 4 (tmp ! 4)\<rparr>,
           r'))"

definition dovi_tmp :: "DOVIDecoderConfigurationRecord \<Rightarrow> byte list" where
  "dovi_tmp b =
     (let tmp = replicate 24 0;
          tmp = tmp[0 := VersionMajor b];
          tmp = tmp[1 := VersionMinor b];
          tmp = tmp[2 := push_bit 1 (Profile b) OR (drop_bit 5 (Level b) AND 1)];
          tmp = tmp[3 := push_bit 3 (Level b) AND 248];
          tmp = (if RPUPresent b then tmp[3 := tmp ! 3 OR 4] else tmp);
          tmp = (if ELPresent b then tmp[3 := tmp ! 3 OR 2] else tmp);
          tmp = (if BLPresent b then tmp[3 := tmp ! 3 OR 1] else tmp);
          tmp = tmp[4 := push_bit 4 (BLSignalCompatibilityID b)]
      in tmp)"

definition dovi_RecordWrite :: "DOVIDecoderConfigurationRecord \<Rightarrow> sink \<Rightarrow> error + sink" where
  "dovi_RecordWrite b w = Write (dovi_tmp b) w"

text \<open>The record of scenario B.\<close>

definition dovi_B :: DOVIDecoderConfigurationRecord where
  "dovi_B = \<lparr>VersionMajor = 1, VersionMinor = 0, Profile = 5, Level = 3,
     RPUPresent = True, ELPresent = False, BLPresent = True, BLSignalCompatibilityID = 2\<rparr>"


section \<open>Length-prefixed byte blobs\<close>

text \<open>
  The loop that both \<open>avc.RecordRead\<close> (three times) and \<open>hevc.RecordRead\<close> (for the NAL units
  of one array) run over a slice made by \<open>make\<close> with \<open>n\<close> empty entries:
  \<^verbatim>\<open>for i := 0; i < n; i++ { binary.Read(r, BigEndian, &length); x[i] = make([]byte, length); io.ReadFull(r, x[i]) }\<close>
  with a return at each error. Entry \<open>i\<close> is assigned before \<open>io.ReadFull\<close> fills it, so a
  short read leaves it in the slice, partly filled. The counters are \<open>uint8\<close> or \<open>uint16\<close> in
  the source and never exceed the count they are compared with, so they do not wrap.
\<close>

function read_entries ::
  "nat \<Rightarrow> nat \<Rightarrow> byte list list \<Rightarrow> reader \<Rightarrow> error option \<times> byte list list \<times> reader" where
  "read_entries i n xs r =
     (if i < n then
        (case binary_Read 2 r of
           (Inl e, r') \<Rightarrow> (Some e, xs, r')
         | (Inr len, r') \<Rightarrow>
             (case ReadFull (unat (from_be16 len)) r' of
                (Some e, buf, r'') \<Rightarrow> (Some e, xs[i := buf], r'')
              | (None, buf, r'') \<Rightarrow> read_entries (Suc i) n (xs[i := buf]) r''))
      else (None, xs, r))"
  by pat_completeness auto
termination
  by (relation "measure (\<lambda>(i, n, xs, r). n - i)") auto

declare read_entries.simps [simp del]

text \<open>One stage of a decoder after another: an error ends the decoding where it stands.\<close>

definition and_then ::
  "error option \<times> 'b \<times> reader \<Rightarrow> ('b \<Rightarrow> reader \<Rightarrow> error option \<times> 'b \<times> reader)
     \<Rightarrow> error option \<times> 'b \<times> reader" where
  "and_then x f = (case x of (Some e, b, r) \<Rightarrow> (Some e, b, r) | (None, b, r) \<Rightarrow> f b r)"


section \<open>AVC configuration record (package avc)\<close>

record AVCSequenceParameterSet =
  sps_NALUnit :: "byte list"

record AVCPictureParameterSet =
  pps_NALUnit :: "byte list"

record AVCSequenceParameterSetExt =
  spse_NALUnit :: "byte list"

text \<open>
  The fields that the HEVC record has under the same name carry the package name here.
\<close>

record AVCDecoderConfigurationRecord =
  avc_ConfigurationVersion :: byte
  AVCProfileIndication :: byte
  ProfileCompatibility :: byte
  AVCLevelIndication :: byte
  avc_LengthSizeMinusOne :: byte
  SequenceParameterSets :: "AVCSequenceParameterSet list"
  PictureParameterSets :: "AVCPictureParameterSet list"
  ChromaFormat :: byte
  avc_BitDepthLumaMinus8 :: byte
  avc_BitDepthChromaMinus8 :: byte
  SequenceParameterSetExts :: "AVCSequenceParameterSetExt list"

text \<open>The zero value of the struct: what \<open>AVCDecoderConfigurationRecord{}\<close> is.\<close>

definition avc_zero :: AVCDecoderConfigurationRecord where
  "avc_zero = \<lparr>avc_ConfigurationVersion = 0, AVCProfileIndication = 0, ProfileCompatibility = 0,
     AVCLevelIndication = 0, avc_LengthSizeMinusOne = 0, SequenceParameterSets = [],
     PictureParameterSets = [], ChromaFormat = 0, avc_BitDepthLumaMinus8 = 0,
     avc_BitDepthChromaMinus8 = 0, SequenceParameterSetExts = []\<rparr>"

text \<open>
  The test that \<open>RecordSize\<close>, \<open>RecordRead\<close> and \<open>RecordWrite\<close> each spell out:
  \<^verbatim>\<open>b.AVCProfileIndication == 100 || ... == 110 || ... == 122 || ... == 144\<close>.
\<close>

definition avc_has_ext :: "AVCDecoderConfigurationRecord \<Rightarrow> bool" where
  "avc_has_ext b = (AVCProfileIndication b = 100 \<or> AVCProfileIndication b = 110
     \<or> AVCProfileIndication b = 122 \<or> AVCProfileIndication b = 144)"

fun avc_size_entries :: "byte list list \<Rightarrow> 32 word \<Rightarrow> 32 word" where
  "avc_size_entries [] sz = sz"
| "avc_size_entries (nalu # rest) sz = avc_size_entries rest (sz + (2 + of_nat (length nalu)))"

definition avc_RecordSize :: "AVCDecoderConfigurationRecord \<Rightarrow> 32 word" where
  "avc_RecordSize b =
     (let sz = 0 + 6;
          sz = avc_size_entries (map sps_NALUnit (SequenceParameterSets b)) sz;
          sz = sz + 1;
          sz = avc_size_entries (map pps_NALUnit (PictureParameterSets b)) sz
      in if avc_has_ext b
         then avc_size_entries (map spse_NALUnit (SequenceParameterSetExts b)) (sz + 4)
         else sz)"

definition avc_read_sps ::
  "AVCDecoderConfigurationRecord \<Rightarrow> reader \<Rightarrow> error option \<times> AVCDecoderConfigurationRecord \<times> reader" where
  "avc_read_sps b r =
     (case binary_Read 6 r of
        (Inl e, r') \<Rightarrow> (Some e, b, r')
      | (Inr tmp, r') \<Rightarrow>
          (let b = b\<lparr>avc_ConfigurationVersion := tmp ! 0,
                     AVCProfileIndication := tmp ! 1,
                     ProfileCompatibility := tmp ! 2,
                     AVCLevelIndication := tmp ! 3,
                     avc_LengthSizeMinusOne := tmp ! 4 AND 3\<rparr>;
               numOfSequenceParameterSets = unat (tmp ! 5 AND 31)
           in case read_entries 0 numOfSequenceParameterSets
                     (replicate numOfSequenceParameterSets []) r' of
                (err, xs, r'') \<Rightarrow>
                  (err, b\<lparr>SequenceParameterSets := map (\<lambda>x. \<lparr>sps_NALUnit = x\<rparr>) xs\<rparr>, r'')))"

definition avc_read_pps ::
  "AVCDecoderConfigurationRecord \<Rightarrow> reader \<Rightarrow> error option \<times> AVCDecoderConfigurationRecord \<times> reader" where
  "avc_read_pps b r =
     (case binary_Read 1 r of
        (Inl e, r') \<Rightarrow> (Some e, b, r')
      | (Inr n, r') \<Rightarrow>
          (let numOfPictureParameterSets = unat (n ! 0)
           in case read_entries 0 numOfPictureParameterSets
                     (replicate numOfPictureParameterSets []) r' of
                (err, xs, r'') \<Rightarrow>
                  (err, b\<lparr>PictureParameterSets := map (\<lambda>x. \<lparr>pps_NALUnit = x\<rparr>) xs\<rparr>, r'')))"

definition avc_read_ext ::
  "AVCDecoderConfigurationRecord \<Rightarrow> reader \<Rightarrow> error option \<times> AVCDecoderConfigurationRecord \<times> reader" where
  "avc_read_ext b r =
     (if avc_has_ext b then
        (case binary_Read 4 r of
           (Inl e, r') \<Rightarrow> (Some e, b, r')
         | (Inr tmp, r') \<Rightarrow>
             (let b = b\<lparr>ChromaFormat := tmp ! 0 AND 3,
                        avc_BitDepthLumaMinus8 := tmp ! 1 AND 7,
                        avc_BitDepthChromaMinus8 := tmp ! 2 AND 7\<rparr>;
                  numOfSequenceParameterSetExt = unat (tmp ! 3)
              in case read_entries 0 numOfSequenceParameterSetExt
                        (replicate numOfSequenceParameterSetExt []) r' of
                   (err, xs, r'') \<Rightarrow>
                     (err, b\<lparr>SequenceParameterSetExts := map (\<lambda>x. \<lparr>spse_NALUnit = x\<rparr>) xs\<rparr>, r'')))
      else (None, b, r))"

text \<open>
  \<open>RecordRead\<close> fills the record it is called on, field by field, and returns the error alone:
  the record comes back as the call leaves it, also when the call fails.
\<close>

definition avc_RecordRead ::
  "AVCDecoderConfigurationRecord \<Rightarrow> reader \<Rightarrow> error option \<times> AVCDecoderConfigurationRecord \<times> reader" where
  "avc_RecordRead b r = and_then (and_then (avc_read_sps b r) avc_read_pps) avc_read_ext"

definition avc_write_entry :: "byte list \<Rightarrow> sink \<Rightarrow> error + sink" where
  "avc_write_entry nalu = write_all [write_u16 (of_nat (length nalu)), Write nalu]"

definition avc_RecordWrite :: "AVCDecoderConfigurationRecord \<Rightarrow> sink \<Rightarrow> error + sink" where
  "avc_RecordWrite b =
     write_all
       ([write_u8 (avc_ConfigurationVersion b),
         write_u8 (AVCProfileIndication b),
         write_u8 (ProfileCompatibility b),
         write_u8 (AVCLevelIndication b),
         write_u8 (avc_LengthSizeMinusOne b OR 252),
         write_u8 (of_nat (length (SequenceParameterSets b)) OR 224)]
        @ map (\<lambda>s. avc_write_entry (sps_NALUnit s)) (SequenceParameterSets b)
        @ [write_u8 (of_nat (length (PictureParameterSets b)))]
        @ map (\<lambda>s. avc_write_entry (pps_NALUnit s)) (PictureParameterSets b)
        @ (if avc_has_ext b then
             [write_u8 (ChromaFormat b OR 252),
              write_u8 (avc_BitDepthLumaMinus8 b OR 248),
              write_u8 (avc_BitDepthChromaMinus8 b OR 248),
              write_u8 (of_nat (length (SequenceParameterSetExts b)))]
             @ map (\<lambda>s. avc_write_entry (spse_NALUnit s)) (SequenceParameterSetExts b)
           else []))"


section \<open>HEVC configuration record (package hevc)\<close>

text \<open>
  Modelled from the spec: the declaration of \<open>NaluType\<close> is in a file of the package that is
  not among the sources. The spec has the NAL unit type as a 6-bit tag; \<open>RecordWrite\<close>
  converts it with \<open>uint8(entry.NALUnitType)\<close> and \<open>RecordRead\<close> makes it from a byte, so it
  is a byte here.
\<close>

type_synonym NaluType = byte

record NaluArray =
  ArrayCompleteness :: bool
  NALUnitType :: NaluType
  NALUs :: "byte list list"

record HEVCDecoderConfigurationRecord =
  hevc_ConfigurationVersion :: byte
  GeneralProfileSpace :: byte
  GeneralTierFlag :: bool
  GenertalProfileIndicator :: byte
  GeneralProfileCompatibilityFlags :: "32 word"
  GeneralConstraintIndicatorFlags :: "64 word"
  GeneralLevelIndicator :: byte
  MinSpatialSegmentationIndicator :: "16 word"
  ParallelismType :: byte
  ChromaFormatIndicator :: byte
  hevc_BitDepthLumaMinus8 :: byte
  hevc_BitDepthChromaMinus8 :: byte
  AvgFrameRate :: "16 word"
  ConstantFrameRate :: byte
  NumTemporalLayers :: byte
  TemporalIDNested :: byte
  hevc_LengthSizeMinusOne :: byte
  NaluArrays :: "NaluArray list"

definition NaluArray_zero :: NaluArray where
  "NaluArray_zero = \<lparr>ArrayCompleteness = False, NALUnitType = 0, NALUs = []\<rparr>"

definition hevc_zero :: HEVCDecoderConfigurationRecord where
  "hevc_zero = \<lparr>hevc_ConfigurationVersion = 0, GeneralProfileSpace = 0, GeneralTierFlag = False,
     GenertalProfileIndicator = 0, GeneralProfileCompatibilityFlags = 0,
     GeneralConstraintIndicatorFlags = 0, GeneralLevelIndicator = 0,
     MinSpatialSegmentationIndicator = 0, ParallelismType = 0, ChromaFormatIndicator = 0,
     hevc_BitDepthLumaMinus8 = 0, hevc_BitDepthChromaMinus8 = 0, AvgFrameRate = 0,
     ConstantFrameRate = 0, NumTemporalLayers = 0, TemporalIDNested = 0,
     hevc_LengthSizeMinusOne = 0, NaluArrays = []\<rparr>"

text \<open>\<open>RecordSize\<close>: the loops add to \<open>naluCount\<close> and \<open>size\<close>, both \<open>uint32\<close>.\<close>

fun hevc_size_nalus :: "byte list list \<Rightarrow> 32 word \<Rightarrow> 32 word" where
  "hevc_size_nalus [] sz = sz"
| "hevc_size_nalus (nalu # rest) sz = hevc_size_nalus rest (sz + of_nat (length nalu))"

fun hevc_size_arrays :: "NaluArray list \<Rightarrow> 32 word \<times> 32 word \<Rightarrow> 32 word \<times> 32 word" where
  "hevc_size_arrays [] (naluCount, sz) = (naluCount, sz)"
| "hevc_size_arrays (entry # rest) (naluCount, sz) =
     hevc_size_arrays rest
       (naluCount + of_nat (length (NALUs entry)), hevc_size_nalus (NALUs entry) sz)"

definition hevc_RecordSize :: "HEVCDecoderConfigurationRecord \<Rightarrow> 32 word" where
  "hevc_RecordSize b =
     (let sz = 0 + 23;
          sz = sz + 3 * of_nat (length (NaluArrays b))
      in case hevc_size_arrays (NaluArrays b) (0, sz) of
           (naluCount, sz) \<Rightarrow> sz + 2 * naluCount)"

function hevc_read_arrays ::
  "nat \<Rightarrow> nat \<Rightarrow> NaluArray list \<Rightarrow> reader \<Rightarrow> error option \<times> NaluArray list \<times> reader" where
  "hevc_read_arrays i n arrs r =
     (if i < n then
        (case binary_Read 3 r of
           (Inl e, r') \<Rightarrow> (Some e, arrs, r')
         | (Inr tmp, r') \<Rightarrow>
             (let naluCount = unat (push_bit 8 (ucast (tmp ! 1 AND 15)) OR ucast (tmp ! 2) :: 16 word)
              in case read_entries 0 naluCount (replicate naluCount []) r' of
                   (Some e, nalus, r'') \<Rightarrow>
                     (Some e,
                      arrs[i := \<lparr>ArrayCompleteness = (drop_bit 7 (tmp ! 0) > 0),
                                 NALUnitType = tmp ! 0 AND 63, NALUs = nalus\<rparr>],
                      r'')
                 | (None, nalus, r'') \<Rightarrow>
                     hevc_read_arrays (Suc i) n
                       (arrs[i := \<lparr>ArrayCompleteness = (drop_bit 7 (tmp ! 0) > 0),
                                  NALUnitType = tmp ! 0 AND 63, NALUs = nalus\<rparr>])
                       r''))
      else (None, arrs, r))"
  by pat_completeness auto
termination
  by (relation "measure (\<lambda>(i, n, arrs, r). n - i)") auto

declare hevc_read_arrays.simps [simp del]

definition hevc_RecordRead ::
  "HEVCDecoderConfigurationRecord \<Rightarrow> reader \<Rightarrow> error option \<times> HEVCDecoderConfigurationRecord \<times> reader" where
  "hevc_RecordRead b r =
     (case binary_Read 23 r of
        (Inl e, r') \<Rightarrow> (Some e, b, r')
      | (Inr tmp, r') \<Rightarrow>
          (let b = b\<lparr>hevc_ConfigurationVersion := tmp ! 0,
                     GeneralProfileSpace := drop_bit 6 (tmp ! 1),
                     GeneralTierFlag := (drop_bit 5 (tmp ! 1) AND 1 > 0),
                     GenertalProfileIndicator := tmp ! 1 AND 31,
                     GeneralProfileCompatibilityFlags :=
                       push_bit 24 (ucast (tmp ! 2)) OR push_bit 16 (ucast (tmp ! 3))
                       OR push_bit 8 (ucast (tmp ! 4)) OR ucast (tmp ! 5),
                     GeneralConstraintIndicatorFlags :=
                       push_bit 40 (ucast (tmp ! 6)) OR push_bit 32 (ucast (tmp ! 7))
                       OR push_bit 24 (ucast (tmp ! 8)) OR push_bit 16 (ucast (tmp ! 9))
                       OR push_bit 8 (ucast (tmp ! 10)) OR ucast (tmp ! 11),
                     GeneralLevelIndicator := tmp ! 12,
                     MinSpatialSegmentationIndicator :=
                       push_bit 8 (ucast (tmp ! 13 AND 15)) OR ucast (tmp ! 14),
                     ParallelismType := tmp ! 15 AND 3,
                     ChromaFormatIndicator := tmp ! 16 AND 3,
                     hevc_BitDepthLumaMinus8 := tmp ! 17 AND 7,
                     hevc_BitDepthChromaMinus8 := tmp ! 18 AND 7,
                     AvgFrameRate := push_bit 8 (ucast (tmp ! 19)) OR ucast (tmp ! 20),
                     ConstantFrameRate := drop_bit 6 (tmp ! 21),
                     NumTemporalLayers := drop_bit 3 (tmp ! 21) AND 7,
                     TemporalIDNested := drop_bit 2 (tmp ! 21) AND 1,
                     hevc_LengthSizeMinusOne := tmp ! 21 AND 3\<rparr>;
               entryCount = unat (tmp ! 22)
           in case hevc_read_arrays 0 entryCount (replicate entryCount NaluArray_zero) r' of
                (err, arrs, r'') \<Rightarrow> (err, b\<lparr>NaluArrays := arrs\<rparr>, r'')))"

definition hevc_write_nalu :: "byte list \<Rightarrow> sink \<Rightarrow> error + sink" where
  "hevc_write_nalu nalu = write_all [write_u16 (of_nat (length nalu)), Write nalu]"

definition hevc_write_array :: "NaluArray \<Rightarrow> sink \<Rightarrow> error + sink" where
  "hevc_write_array entry =
     (let tmp = 0 OR (NALUnitType entry AND 63);
          tmp = (if ArrayCompleteness entry then tmp OR 128 else tmp)
      in write_all
           ([write_u8 tmp, write_u16 (of_nat (length (NALUs entry)))]
            @ map hevc_write_nalu (NALUs entry)))"

definition hevc_RecordWrite :: "HEVCDecoderConfigurationRecord \<Rightarrow> sink \<Rightarrow> error + sink" where
  "hevc_RecordWrite b =
     (let tmp = push_bit 6 (GeneralProfileSpace b) OR (GenertalProfileIndicator b AND 31);
          tmp = (if GeneralTierFlag b then tmp OR 16 else tmp)
      in write_all
           ([write_u8 (hevc_ConfigurationVersion b),
             write_u8 tmp,
             write_u32 (GeneralProfileCompatibilityFlags b),
             write_u16 (ucast (drop_bit 32 (GeneralConstraintIndicatorFlags b))),
             write_u32 (ucast (GeneralConstraintIndicatorFlags b)),
             write_u8 (GeneralLevelIndicator b),
             write_u16 (MinSpatialSegmentationIndicator b OR push_bit 12 15),
             write_u8 (ParallelismType b OR 63),
             write_u8 (ChromaFormatIndicator b OR 63),
             write_u8 (hevc_BitDepthLumaMinus8 b OR 31),
             write_u8 (hevc_BitDepthChromaMinus8 b OR 31),
             write_u16 (AvgFrameRate b),
             write_u8 (push_bit 6 (ConstantFrameRate b) OR push_bit 3 (NumTemporalLayers b AND 7)
                       OR push_bit 2 (TemporalIDNested b AND 1) OR (hevc_LengthSizeMinusOne b AND 3)),
             write_u8 (of_nat (length (NaluArrays b)))]
            @ map hevc_write_array (NaluArrays b)))"

text \<open>
  Modelled from the spec: \<open>ParseSPSNALUnit\<close>, the type of what it returns and the constants
  \<open>NALU_VPS\<close>, \<open>NALU_SPS\<close> and \<open>NALU_PPS\<close> are declared outside the sources. The parser
  is a parameter of the builder; its result carries the fields that the spec lists for the
  parameter set parser and that the builder reads; the three constants have the values of
  ISO/IEC 23008-2 (32, 33, 34), on which nothing below depends but the bytes of the examples.

  In the builder, \<open>spsNalus[0]\<close> on an empty slice is a run-time panic (index out of range),
  which no \<open>error\<close> value reports.
\<close>

record ProfileTierLevel =
  ptl_GeneralProfileSpace :: byte
  ptl_GeneralTierFlag :: bool
  ptl_GeneralProfileIndicator :: byte
  ptl_GeneralProfileCompatibilityFlags :: "32 word"
  ptl_GeneralConstraintIndicatorFlags :: "64 word"
  ptl_GeneralLevelIndicator :: byte

record SPS =
  sps_ProfileTierLevel :: ProfileTierLevel
  sps_ChromaFormatIndicator :: byte
  sps_BitDepthLumaMinus8 :: byte
  sps_BitDepthChromaMinus8 :: byte

definition NALU_VPS :: NaluType where "NALU_VPS = 32"
definition NALU_SPS :: NaluType where "NALU_SPS = 33"
definition NALU_PPS :: NaluType where "NALU_PPS = 34"

datatype panic = IndexOutOfRange

definition CreateHEVCDecoderConfigurationRecord ::
  "(byte list \<Rightarrow> 'e + SPS) \<Rightarrow> byte list list \<Rightarrow> byte list list \<Rightarrow> byte list list
     \<Rightarrow> bool \<Rightarrow> bool \<Rightarrow> bool \<Rightarrow> panic + (HEVCDecoderConfigurationRecord \<times> 'e option)" where
  "CreateHEVCDecoderConfigurationRecord ParseSPSNALUnit vpsNalus spsNalus ppsNalus
       vpsComplete spsComplete ppsComplete =
     (case spsNalus of
        [] \<Rightarrow> Inl IndexOutOfRange
      | sps0 # _ \<Rightarrow>
          (case ParseSPSNALUnit sps0 of
             Inl err \<Rightarrow> Inr (hevc_zero, Some err)
           | Inr sps \<Rightarrow>
               (let naluArrays = [];
                    naluArrays = naluArrays @ [\<lparr>ArrayCompleteness = vpsComplete, NALUnitType = NALU_VPS, NALUs = vpsNalus\<rparr>];
                    naluArrays = naluArrays @ [\<lparr>ArrayCompleteness = spsComplete, NALUnitType = NALU_SPS, NALUs = spsNalus\<rparr>];
                    naluArrays = naluArrays @ [\<lparr>ArrayCompleteness = ppsComplete, NALUnitType = NALU_PPS, NALUs = ppsNalus\<rparr>];
                    ptf = sps_ProfileTierLevel sps
                in Inr (\<lparr>hevc_ConfigurationVersion = 1,
                         GeneralProfileSpace = ptl_GeneralProfileSpace ptf,
                         GeneralTierFlag = ptl_GeneralTierFlag ptf,
                         GenertalProfileIndicator = ptl_GeneralProfileIndicator ptf,
                         GeneralProfileCompatibilityFlags = ptl_GeneralProfileCompatibilityFlags ptf,
                         GeneralConstraintIndicatorFlags = ptl_GeneralConstraintIndicatorFlags ptf,
                         GeneralLevelIndicator = ptl_GeneralLevelIndicator ptf,
                         MinSpatialSegmentationIndicator = 0,
                         ParallelismType = 0,
                         ChromaFormatIndicator = sps_ChromaFormatIndicator sps,
                         hevc_BitDepthLumaMinus8 = sps_BitDepthLumaMinus8 sps,
                         hevc_BitDepthChromaMinus8 = sps_BitDepthChromaMinus8 sps,
                         AvgFrameRate = 0,
                         ConstantFrameRate = 0,
                         NumTemporalLayers = 0,
                         TemporalIDNested = 0,
                         hevc_LengthSizeMinusOne = 3,
                         NaluArrays = naluArrays\<rparr>, None))))"

text \<open>The record of scenario A, with NAL units of the three lengths it names.\<close>

definition hevc_A :: HEVCDecoderConfigurationRecord where
  "hevc_A = \<lparr>hevc_ConfigurationVersion = 1, GeneralProfileSpace = 0, GeneralTierFlag = False,
     GenertalProfileIndicator = 1, GeneralProfileCompatibilityFlags = 0x60000000,
     GeneralConstraintIndicatorFlags = 0xB00050F00000, GeneralLevelIndicator = 93,
     MinSpatialSegmentationIndicator = 0, ParallelismType = 0, ChromaFormatIndicator = 0,
     hevc_BitDepthLumaMinus8 = 0, hevc_BitDepthChromaMinus8 = 0, AvgFrameRate = 0,
     ConstantFrameRate = 0, NumTemporalLayers = 0, TemporalIDNested = 0,
     hevc_LengthSizeMinusOne = 3,
     NaluArrays =
       [\<lparr>ArrayCompleteness = True, NALUnitType = NALU_VPS, NALUs = [[64, 1, 12, 1, 255]]\<rparr>,
        \<lparr>ArrayCompleteness = True, NALUnitType = NALU_SPS,
          NALUs = [[66, 1, 1, 1, 96, 0, 0, 3, 0, 176, 0, 0, 3, 0, 0, 3, 0, 93, 160, 2]]\<rparr>,
        \<lparr>ArrayCompleteness = True, NALUnitType = NALU_PPS,
          NALUs = [[68, 1, 193, 114, 180, 98, 64, 0, 0, 1]]\<rparr>]\<rparr>"


section \<open>The bytes on the wire\<close>

text \<open>
  What the writes of \<open>RecordWrite\<close> put into the sink, one after another, as one list of bytes
  (\<open>avc_RecordWrite_wire\<close> and \<open>hevc_RecordWrite_wire\<close> below prove that this is what is written).
\<close>

definition entry_wire :: "byte list \<Rightarrow> byte list" where
  "entry_wire nalu = be16 (of_nat (length nalu)) @ nalu"

definition avc_wire :: "AVCDecoderConfigurationRecord \<Rightarrow> byte list" where
  "avc_wire b =
     [avc_ConfigurationVersion b, AVCProfileIndication b, ProfileCompatibility b,
      AVCLevelIndication b, avc_LengthSizeMinusOne b OR 252,
      of_nat (length (SequenceParameterSets b)) OR 224]
     @ concat (map (\<lambda>s. entry_wire (sps_NALUnit s)) (SequenceParameterSets b))
     @ [of_nat (length (PictureParameterSets b))]
     @ concat (map (\<lambda>s. entry_wire (pps_NALUnit s)) (PictureParameterSets b))
     @ (if avc_has_ext b then
          [ChromaFormat b OR 252, avc_BitDepthLumaMinus8 b OR 248, avc_BitDepthChromaMinus8 b OR 248,
           of_nat (length (SequenceParameterSetExts b))]
          @ concat (map (\<lambda>s. entry_wire (spse_NALUnit s)) (SequenceParameterSetExts b))
        else [])"

definition array_wire :: "NaluArray \<Rightarrow> byte list" where
  "array_wire entry =
     [(NALUnitType entry AND 63) OR (if ArrayCompleteness entry then 128 else 0)]
     @ be16 (of_nat (length (NALUs entry)))
     @ concat (map entry_wire (NALUs entry))"

definition hevc_header :: "HEVCDecoderConfigurationRecord \<Rightarrow> byte list" where
  "hevc_header b =
     [hevc_ConfigurationVersion b,
      (push_bit 6 (GeneralProfileSpace b) OR (GenertalProfileIndicator b AND 31))
        OR (if GeneralTierFlag b then 16 else 0)]
     @ be32 (GeneralProfileCompatibilityFlags b)
     @ be16 (ucast (drop_bit 32 (GeneralConstraintIndicatorFlags b)))
     @ be32 (ucast (GeneralConstraintIndicatorFlags b))
     @ [GeneralLevelIndicator b]
     @ be16 (MinSpatialSegmentationIndicator b OR 0xF000)
     @ [ParallelismType b OR 63, ChromaFormatIndicator b OR 63,
        hevc_BitDepthLumaMinus8 b OR 31, hevc_BitDepthChromaMinus8 b OR 31]
     @ be16 (AvgFrameRate b)
     @ [push_bit 6 (ConstantFrameRate b) OR push_bit 3 (NumTemporalLayers b AND 7)
          OR push_bit 2 (TemporalIDNested b AND 1) OR (hevc_LengthSizeMinusOne b AND 3),
        of_nat (length (NaluArrays b))]"

definition hevc_wire :: "HEVCDecoderConfigurationRecord \<Rightarrow> byte list" where
  "hevc_wire b = hevc_header b @ concat (map array_wire (NaluArrays b))"


text \<open>An AVC record with one picture parameter set of \<open>2 ^ 32\<close> bytes.\<close>

definition avc_huge :: AVCDecoderConfigurationRecord where
  "avc_huge = avc_zero\<lparr>PictureParameterSets := [\<lparr>pps_NALUnit = replicate 4294967296 0\<rparr>]\<rparr>"


text \<open>A parser that rejects every NAL unit, to run the builder on.\<close>

definition reject_all :: "byte list \<Rightarrow> string + SPS" where
  "reject_all nalu = Inl ''malformed''"


section \<open>Records within their field ranges\<close>

text \<open>
  The ranges of the wire format: each field fits its bits, each count its count field, each
  parameter set or NAL unit its 16-bit length prefix.
\<close>

definition avc_valid :: "AVCDecoderConfigurationRecord \<Rightarrow> bool" where
  "avc_valid b =
     (avc_LengthSizeMinusOne b < 4
      \<and> length (SequenceParameterSets b) < 32
      \<and> (\<forall>s \<in> set (SequenceParameterSets b). length (sps_NALUnit s) < 65536)
      \<and> length (PictureParameterSets b) < 256
      \<and> (\<forall>s \<in> set (PictureParameterSets b). length (pps_NALUnit s) < 65536)
      \<and> (avc_has_ext b \<longrightarrow>
            ChromaFormat b < 4 \<and> avc_BitDepthLumaMinus8 b < 8 \<and> avc_BitDepthChromaMinus8 b < 8
            \<and> length (SequenceParameterSetExts b) < 256
            \<and> (\<forall>s \<in> set (SequenceParameterSetExts b). length (spse_NALUnit s) < 65536)))"

text \<open>
  What \<open>RecordRead\<close>, called on the record \<open>b0\<close>, makes of the encoding of \<open>b\<close>: the section
  of the extension is read only for the four profiles, and otherwise its four fields stay as
  \<open>b0\<close> has them.
\<close>

definition avc_read_back ::
  "AVCDecoderConfigurationRecord \<Rightarrow> AVCDecoderConfigurationRecord \<Rightarrow> AVCDecoderConfigurationRecord" where
  "avc_read_back b0 b =
     (if avc_has_ext b then b
      else b\<lparr>ChromaFormat := ChromaFormat b0,
             avc_BitDepthLumaMinus8 := avc_BitDepthLumaMinus8 b0,
             avc_BitDepthChromaMinus8 := avc_BitDepthChromaMinus8 b0,
             SequenceParameterSetExts := SequenceParameterSetExts b0\<rparr>)"


text \<open>
  The two parts of the AVC wire image: the header with the two parameter set arrays, and the
  section of the extension (chroma format, the two bit depths, the SPS extension array).
\<close>

definition avc_main_wire :: "AVCDecoderConfigurationRecord \<Rightarrow> byte list" where
  "avc_main_wire b =
     [avc_ConfigurationVersion b, AVCProfileIndication b, ProfileCompatibility b,
      AVCLevelIndication b, avc_LengthSizeMinusOne b OR 252,
      of_nat (length (SequenceParameterSets b)) OR 224]
     @ concat (map (\<lambda>s. entry_wire (sps_NALUnit s)) (SequenceParameterSets b))
     @ [of_nat (length (PictureParameterSets b))]
     @ concat (map (\<lambda>s. entry_wire (pps_NALUnit s)) (PictureParameterSets b))"

definition avc_ext_wire :: "AVCDecoderConfigurationRecord \<Rightarrow> byte list" where
  "avc_ext_wire b =
     [ChromaFormat b OR 252, avc_BitDepthLumaMinus8 b OR 248, avc_BitDepthChromaMinus8 b OR 248,
      of_nat (length (SequenceParameterSetExts b))]
     @ concat (map (\<lambda>s. entry_wire (spse_NALUnit s)) (SequenceParameterSetExts b))"

text \<open>Two records to run the codec on: Baseline profile (66) and High profile (100).\<close>

definition avc_66 :: AVCDecoderConfigurationRecord where
  "avc_66 = \<lparr>avc_ConfigurationVersion = 1, AVCProfileIndication = 66, ProfileCompatibility = 192,
     AVCLevelIndication = 30, avc_LengthSizeMinusOne = 3,
     SequenceParameterSets = [\<lparr>sps_NALUnit = [103, 66, 192, 30]\<rparr>],
     PictureParameterSets = [\<lparr>pps_NALUnit = [104, 206]\<rparr>],
     ChromaFormat = 0, avc_BitDepthLumaMinus8 = 0, avc_BitDepthChromaMinus8 = 0,
     SequenceParameterSetExts = []\<rparr>"

definition avc_100 :: AVCDecoderConfigurationRecord where
  "avc_100 = \<lparr>avc_ConfigurationVersion = 1, AVCProfileIndication = 100, ProfileCompatibility = 0,
     AVCLevelIndication = 40, avc_LengthSizeMinusOne = 3,
     SequenceParameterSets = [\<lparr>sps_NALUnit = [103, 100, 0, 40]\<rparr>],
     PictureParameterSets = [\<lparr>pps_NALUnit = [104, 238]\<rparr>],
     ChromaFormat = 1, avc_BitDepthLumaMinus8 = 2, avc_BitDepthChromaMinus8 = 2,
     SequenceParameterSetExts = []\<rparr>"


text \<open>The record of scenario A in the high tier.\<close>

definition hevc_A_high :: HEVCDecoderConfigurationRecord where
  "hevc_A_high = hevc_A\<lparr>GeneralTierFlag := True\<rparr>"


section \<open>Sources that end too early\<close>

text \<open>
  The two errors of a read that meets the end of the source: \<open>io.EOF\<close> when nothing was there,
  \<open>io.ErrUnexpectedEOF\<close> when too little was.
\<close>

definition short_read :: "error \<Rightarrow> bool" where
  "short_read e = (e = EOF \<or> e = ErrUnexpectedEOF)"

text \<open>
  A reading step that fails only with a short read, at the end of the source, and that on
  success has consumed a prefix \<open>c\<close> of the source that alone decides its result: what follows
  \<open>c\<close> does not matter, and a source that ends inside \<open>c\<close> makes the step fail.
\<close>

definition reads_prefix :: "(reader \<Rightarrow> error option \<times> 'a \<times> reader) \<Rightarrow> bool" where
  "reads_prefix f =
     (\<forall>s err x r'. f s = (err, x, r') \<longrightarrow>
        (case err of
           None \<Rightarrow>
             (\<exists>c. s = c @ r' \<and> (\<forall>t. f (c @ t) = (None, x, t))
                  \<and> (\<forall>k < length c. \<exists>e x'. f (take k c) = (Some e, x', []) \<and> short_read e))
         | Some e \<Rightarrow> short_read e \<and> r' = []))"

text \<open>One step, then the next on what the first returns; \<open>d\<close> is what an error leaves behind.\<close>

definition bindR ::
  "(reader \<Rightarrow> error option \<times> 'a \<times> reader) \<Rightarrow> ('a \<Rightarrow> 'b)
     \<Rightarrow> ('a \<Rightarrow> reader \<Rightarrow> error option \<times> 'b \<times> reader) \<Rightarrow> reader \<Rightarrow> error option \<times> 'b \<times> reader" where
  "bindR f d g s = (case f s of (Some e, x, r) \<Rightarrow> (Some e, d x, r) | (None, x, r) \<Rightarrow> g x r)"


definition hevc_valid :: "HEVCDecoderConfigurationRecord \<Rightarrow> bool" where
  "hevc_valid b =
     (GeneralProfileSpace b < 4 \<and> GenertalProfileIndicator b < 32
      \<and> GeneralConstraintIndicatorFlags b < 2 ^ 48
      \<and> MinSpatialSegmentationIndicator b < 2 ^ 12
      \<and> ParallelismType b < 4 \<and> ChromaFormatIndicator b < 4
      \<and> hevc_BitDepthLumaMinus8 b < 8 \<and> hevc_BitDepthChromaMinus8 b < 8
      \<and> ConstantFrameRate b < 4 \<and> NumTemporalLayers b < 8 \<and> TemporalIDNested b < 2
      \<and> hevc_LengthSizeMinusOne b < 4
      \<and> length (NaluArrays b) < 256
      \<and> (\<forall>a \<in> set (NaluArrays b).
            NALUnitType a < 64 \<and> length (NALUs a) < 4096
            \<and> (\<forall>nalu \<in> set (NALUs a). length nalu < 65536)))"

text \<open>
  What \<open>RecordRead\<close> makes of the encoding of an HEVC record \<open>b\<close> within its ranges: \<open>b\<close> with
  the tier flag moved into bit 4 of the profile indicator and the four fields under the
  one-bits of \<open>RecordWrite\<close> all ones.
\<close>

definition hevc_read_back :: "HEVCDecoderConfigurationRecord \<Rightarrow> HEVCDecoderConfigurationRecord" where
  "hevc_read_back b =
     b\<lparr>GeneralTierFlag := False,
       GenertalProfileIndicator := GenertalProfileIndicator b OR (if GeneralTierFlag b then 16 else 0),
       ParallelismType := 3, ChromaFormatIndicator := 3,
       hevc_BitDepthLumaMinus8 := 7, hevc_BitDepthChromaMinus8 := 7\<rparr>"


text \<open>
  An HEVC record within its ranges, with one array of one NAL unit of \<open>n\<close> bytes, and an AVC
  record with 32 sequence parameter sets of one byte.
\<close>

definition hevc_nal :: "nat \<Rightarrow> HEVCDecoderConfigurationRecord" where
  "hevc_nal n = \<lparr>hevc_ConfigurationVersion = 1, GeneralProfileSpace = 0, GeneralTierFlag = False,
     GenertalProfileIndicator = 1, GeneralProfileCompatibilityFlags = 0x60000000,
     GeneralConstraintIndicatorFlags = 0xB00050F00000, GeneralLevelIndicator = 93,
     MinSpatialSegmentationIndicator = 0, ParallelismType = 3, ChromaFormatIndicator = 3,
     hevc_BitDepthLumaMinus8 = 7, hevc_BitDepthChromaMinus8 = 7, AvgFrameRate = 0,
     ConstantFrameRate = 0, NumTemporalLayers = 0, TemporalIDNested = 0,
     hevc_LengthSizeMinusOne = 3,
     NaluArrays = [\<lparr>ArrayCompleteness = True, NALUnitType = NALU_SPS, NALUs = [replicate n 66]\<rparr>]\<rparr>"

definition avc_32 :: AVCDecoderConfigurationRecord where
  "avc_32 = avc_66\<lparr>SequenceParameterSets := replicate 32 \<lparr>sps_NALUnit = [103]\<rparr>\<rparr>"


definition dovi_valid :: "DOVIDecoderConfigurationRecord \<Rightarrow> bool" where
  "dovi_valid b = (Profile b < 128 \<and> Level b < 64 \<and> BLSignalCompatibilityID b < 16)"


section \<open>Properties of the Dolby Vision codec\<close>

lemma dovi_tmp_len: "length (dovi_tmp b) = 24"
  by (simp add: dovi_tmp_def Let_def)

lemma replicate_24: "replicate 24 x = [x,x,x,x,x,x,x,x,x,x,x,x,x,x,x,x,x,x,x,x,x,x,x,x]"
  by (simp add: numeral_eq_Suc)

lemma dovi_tmp_B: "dovi_tmp dovi_B = [1,0,10,29,32,0,0,0,0,0,0,0,0,0,0,0,0,0,0,0,0,0,0,0]"
  by (simp add: dovi_tmp_def dovi_B_def Let_def replicate_24)

lemma binary_Read_exact: "length r = n \<Longrightarrow> binary_Read n r = (Inr r, [])"
  by (simp add: binary_Read_def ReadFull_def)

lemma dovi_read_B:
  assumes "length src = 24" "src ! 0 = 1" "src ! Suc 0 = 0" "src ! 2 = 10" "src ! 3 = 29"
    and "drop_bit 4 (src ! 4) = 2"
  shows "dovi_RecordRead b0 src = (None, dovi_B, [])"
  by (simp add: dovi_RecordRead_def binary_Read_exact [OF assms(1)] assms(2-6) dovi_B_def)

text \<open>
  Claim C9. For the Dolby Vision record of scenario B (major 1, minor 0, profile 5, level 3,
  RPU present, EL absent, BL present, BL signal compatibility id 2), \<open>RecordSize\<close> is 24,
  \<open>RecordWrite\<close> writes 24 bytes, and \<open>RecordRead\<close> gets every field of the record back
  from them; it gets the same fields back from any 24 bytes that agree with them on bytes 0 to 3
  and on the high nibble of byte 4, whatever the reserved low nibble of byte 4 and bytes 5 to 23
  hold.
\<close>

theorem dovi_scenario_B:
  assumes "length src = 24"
    and "take 4 src = take 4 (dovi_tmp dovi_B)"
    and "drop_bit 4 (src ! 4) = drop_bit 4 (dovi_tmp dovi_B ! 4)"
  shows "dovi_RecordSize dovi_B = 24
       \<and> dovi_RecordWrite dovi_B buffer = Inr \<lparr>written = dovi_tmp dovi_B, room = None\<rparr>
       \<and> length (dovi_tmp dovi_B) = 24
       \<and> dovi_RecordRead b0 (dovi_tmp dovi_B) = (None, dovi_B, [])
       \<and> dovi_RecordRead b0 src = (None, dovi_B, [])"
proof -
  have t: "take 4 src = [1, 0, 10, 29]"
    using assms(2) by (simp add: dovi_tmp_B)
  have n: "src ! 0 = 1" "src ! Suc 0 = 0" "src ! 2 = 10" "src ! 3 = 29"
    using nth_take [of 0 4 src] nth_take [of 1 4 src] nth_take [of 2 4 src] nth_take [of 3 4 src]
    by (simp_all add: t)
  have h: "drop_bit 4 (src ! 4) = 2"
    using assms(3) by (simp add: dovi_tmp_B)
  have a: "dovi_RecordRead b0 src = (None, dovi_B, [])"
    using assms(1) n h by (rule dovi_read_B)
  have b: "dovi_RecordRead b0 (dovi_tmp dovi_B) = (None, dovi_B, [])"
    by (rule dovi_read_B) (simp_all add: dovi_tmp_B)
  have c: "dovi_RecordWrite dovi_B buffer = Inr \<lparr>written = dovi_tmp dovi_B, room = None\<rparr>"
    by (simp add: dovi_RecordWrite_def Write_def buffer_def)
  show ?thesis
    using a b c by (simp add: dovi_RecordSize_def dovi_tmp_len)
qed

theorem dovi_scenario_B_witness:
  "dovi_RecordRead dovi_zero
     [1, 0, 10, 29, 47, 255, 1, 2, 3, 4, 5, 6, 7, 8, 9, 10, 11, 12, 13, 14, 15, 16, 17, 18]
   = (None, dovi_B, [])"
  using dovi_scenario_B [of "[1, 0, 10, 29, 47, 255, 1, 2, 3, 4, 5, 6, 7, 8, 9, 10, 11, 12, 13, 14, 15, 16, 17, 18]" dovi_zero]
  by (simp add: dovi_tmp_B)

section \<open>Writing: the sink receives the wire image\<close>

lemma Write_then_Write:
  "(case Write a w of Inl e \<Rightarrow> Inl e | Inr w' \<Rightarrow> Write b w') = Write (a @ b) w"
  by (cases "room w") (auto simp: Write_def)

lemma write_all_Writes: "write_all (map Write bss) w = Write (concat bss) w"
proof (induction bss arbitrary: w)
  case Nil
  show ?case by (cases "room w") (simp_all add: Write_def)
next
  case (Cons a bss)
  have "write_all (map Write (a # bss)) w =
      (case Write a w of Inl e \<Rightarrow> Inl e | Inr w' \<Rightarrow> Write (concat bss) w')"
    by (cases "Write a w") (simp_all add: Cons.IH)
  then show ?case by (simp add: Write_then_Write)
qed

lemma write_entry_Write: "avc_write_entry nalu = Write (entry_wire nalu)"
  using write_all_Writes [of "[be16 (of_nat (length nalu)), nalu]"]
  by (auto simp: avc_write_entry_def entry_wire_def write_u16_def fun_eq_iff)

lemma write_nalu_Write: "hevc_write_nalu nalu = Write (entry_wire nalu)"
  using write_all_Writes [of "[be16 (of_nat (length nalu)), nalu]"]
  by (auto simp: hevc_write_nalu_def entry_wire_def write_u16_def fun_eq_iff)

lemma write_array_Write: "hevc_write_array entry = Write (array_wire entry)"
proof
  fix w
  define tmp :: byte where "tmp = 0 OR (NALUnitType entry AND 63)"
  have t: "(if ArrayCompleteness entry then tmp OR 128 else tmp)
      = (NALUnitType entry AND 63) OR (if ArrayCompleteness entry then 128 else 0)"
    by (simp add: tmp_def)
  have fs: "[write_u8 ((NALUnitType entry AND 63) OR (if ArrayCompleteness entry then 128 else 0)),
             write_u16 (of_nat (length (NALUs entry)))] @ map hevc_write_nalu (NALUs entry)
     = map Write ([[(NALUnitType entry AND 63) OR (if ArrayCompleteness entry then 128 else 0)],
        be16 (of_nat (length (NALUs entry)))] @ map entry_wire (NALUs entry))"
    by (simp add: write_u8_def write_u16_def write_nalu_Write)
  show "hevc_write_array entry w = Write (array_wire entry) w"
    unfolding hevc_write_array_def Let_def tmp_def [symmetric] t fs write_all_Writes
    by (simp add: array_wire_def)
qed

lemma avc_RecordWrite_wire: "avc_RecordWrite b w = Write (avc_wire b) w"
proof -
  have fs: "[write_u8 (avc_ConfigurationVersion b),
         write_u8 (AVCProfileIndication b),
         write_u8 (ProfileCompatibility b),
         write_u8 (AVCLevelIndication b),
         write_u8 (avc_LengthSizeMinusOne b OR 252),
         write_u8 (of_nat (length (SequenceParameterSets b)) OR 224)]
        @ map (\<lambda>s. avc_write_entry (sps_NALUnit s)) (SequenceParameterSets b)
        @ [write_u8 (of_nat (length (PictureParameterSets b)))]
        @ map (\<lambda>s. avc_write_entry (pps_NALUnit s)) (PictureParameterSets b)
        @ (if avc_has_ext b then
             [write_u8 (ChromaFormat b OR 252),
              write_u8 (avc_BitDepthLumaMinus8 b OR 248),
              write_u8 (avc_BitDepthChromaMinus8 b OR 248),
              write_u8 (of_nat (length (SequenceParameterSetExts b)))]
             @ map (\<lambda>s. avc_write_entry (spse_NALUnit s)) (SequenceParameterSetExts b)
           else [])
     = map Write
       ([[avc_ConfigurationVersion b], [AVCProfileIndication b], [ProfileCompatibility b],
         [AVCLevelIndication b], [avc_LengthSizeMinusOne b OR 252],
         [of_nat (length (SequenceParameterSets b)) OR 224]]
        @ map (\<lambda>s. entry_wire (sps_NALUnit s)) (SequenceParameterSets b)
        @ [[of_nat (length (PictureParameterSets b))]]
        @ map (\<lambda>s. entry_wire (pps_NALUnit s)) (PictureParameterSets b)
        @ (if avc_has_ext b then
             [[ChromaFormat b OR 252], [avc_BitDepthLumaMinus8 b OR 248],
              [avc_BitDepthChromaMinus8 b OR 248], [of_nat (length (SequenceParameterSetExts b))]]
             @ map (\<lambda>s. entry_wire (spse_NALUnit s)) (SequenceParameterSetExts b)
           else []))"
    by (simp add: write_u8_def write_entry_Write comp_def)
  show ?thesis
    unfolding avc_RecordWrite_def fs write_all_Writes by (simp add: avc_wire_def)
qed

lemma hevc_RecordWrite_wire: "hevc_RecordWrite b w = Write (hevc_wire b) w"
proof -
  define tmp where "tmp = push_bit 6 (GeneralProfileSpace b) OR (GenertalProfileIndicator b AND 31)"
  have t: "(if GeneralTierFlag b then tmp OR 16 else tmp) = tmp OR (if GeneralTierFlag b then 16 else 0)"
    by simp
  have fs: "[write_u8 (hevc_ConfigurationVersion b),
             write_u8 (if GeneralTierFlag b then tmp OR 16 else tmp),
             write_u32 (GeneralProfileCompatibilityFlags b),
             write_u16 (ucast (drop_bit 32 (GeneralConstraintIndicatorFlags b))),
             write_u32 (ucast (GeneralConstraintIndicatorFlags b)),
             write_u8 (GeneralLevelIndicator b),
             write_u16 (MinSpatialSegmentationIndicator b OR push_bit 12 15),
             write_u8 (ParallelismType b OR 63),
             write_u8 (ChromaFormatIndicator b OR 63),
             write_u8 (hevc_BitDepthLumaMinus8 b OR 31),
             write_u8 (hevc_BitDepthChromaMinus8 b OR 31),
             write_u16 (AvgFrameRate b),
             write_u8 (push_bit 6 (ConstantFrameRate b) OR push_bit 3 (NumTemporalLayers b AND 7)
                       OR push_bit 2 (TemporalIDNested b AND 1) OR (hevc_LengthSizeMinusOne b AND 3)),
             write_u8 (of_nat (length (NaluArrays b)))]
            @ map hevc_write_array (NaluArrays b)
     = map Write
       ([[hevc_ConfigurationVersion b],
         [tmp OR (if GeneralTierFlag b then 16 else 0)],
         be32 (GeneralProfileCompatibilityFlags b),
         be16 (ucast (drop_bit 32 (GeneralConstraintIndicatorFlags b))),
         be32 (ucast (GeneralConstraintIndicatorFlags b)),
         [GeneralLevelIndicator b],
         be16 (MinSpatialSegmentationIndicator b OR 0xF000),
         [ParallelismType b OR 63], [ChromaFormatIndicator b OR 63],
         [hevc_BitDepthLumaMinus8 b OR 31], [hevc_BitDepthChromaMinus8 b OR 31],
         be16 (AvgFrameRate b),
         [push_bit 6 (ConstantFrameRate b) OR push_bit 3 (NumTemporalLayers b AND 7)
            OR push_bit 2 (TemporalIDNested b AND 1) OR (hevc_LengthSizeMinusOne b AND 3)],
         [of_nat (length (NaluArrays b))]]
        @ map array_wire (NaluArrays b))"
    unfolding t by (simp add: write_u8_def write_u16_def write_u32_def write_array_Write)
  show ?thesis
    unfolding hevc_RecordWrite_def Let_def tmp_def [symmetric] fs write_all_Writes
    by (simp add: hevc_wire_def hevc_header_def tmp_def)
qed

section \<open>RecordSize against the bytes written\<close>

lemma length_be16: "length (be16 x) = 2"
  by (simp add: be16_def)

lemma length_be32: "length (be32 x) = 4"
  by (simp add: be32_def)

lemma length_entry_wire: "length (entry_wire nalu) = 2 + length nalu"
  by (simp add: entry_wire_def length_be16)

lemma avc_size_entries_wire:
  "avc_size_entries xs sz = sz + of_nat (length (concat (map entry_wire xs)))"
  by (induction xs arbitrary: sz) (simp_all add: length_entry_wire)

lemma avc_RecordSize_wire: "avc_RecordSize b = of_nat (length (avc_wire b))"
  by (simp add: avc_RecordSize_def avc_wire_def Let_def avc_size_entries_wire comp_def)

lemma hevc_size_nalus_wire:
  "hevc_size_nalus xs sz + 2 * of_nat (length xs) = sz + of_nat (length (concat (map entry_wire xs)))"
  by (induction xs arbitrary: sz) (simp_all add: length_entry_wire)

lemma hevc_size_arrays_wire:
  "hevc_size_arrays arrs (naluCount, sz) = (n', sz')
   \<Longrightarrow> sz' + 2 * n' + 3 * of_nat (length arrs)
       = sz + 2 * naluCount + of_nat (length (concat (map array_wire arrs)))"
proof (induction arrs arbitrary: naluCount sz)
  case Nil
  then show ?case by simp
next
  case (Cons entry arrs)
  from Cons.prems have
    "hevc_size_arrays arrs (naluCount + of_nat (length (NALUs entry)), hevc_size_nalus (NALUs entry) sz)
       = (n', sz')"
    by simp
  from Cons.IH [OF this] hevc_size_nalus_wire [of "NALUs entry" sz]
  show ?case
    by (simp add: array_wire_def length_be16 algebra_simps)
qed

lemma length_hevc_header: "length (hevc_header b) = 23"
  by (simp add: hevc_header_def length_be16 length_be32)

lemma hevc_RecordSize_wire: "hevc_RecordSize b = of_nat (length (hevc_wire b))"
proof -
  obtain n' sz' where h: "hevc_size_arrays (NaluArrays b) (0, 23 + 3 * of_nat (length (NaluArrays b))) = (n', sz')"
    by (cases "hevc_size_arrays (NaluArrays b) (0, 23 + 3 * of_nat (length (NaluArrays b)))") 
  from hevc_size_arrays_wire [OF h] have "sz' + 2 * n' = 23 + of_nat (length (concat (map array_wire (NaluArrays b))))"
    by simp
  then show ?thesis
    by (simp add: hevc_RecordSize_def Let_def h hevc_wire_def length_hevc_header)
qed

lemma dovi_RecordSize_wire: "dovi_RecordSize b = of_nat (length (dovi_tmp b))"
  by (simp add: dovi_RecordSize_def dovi_tmp_len)

lemma Write_Inr_written: "Write bs w = Inr w' \<Longrightarrow> written w' = written w @ bs"
  by (cases "room w") (auto simp: Write_def split: if_splits)

lemma Write_buffer: "Write bs buffer = Inr \<lparr>written = bs, room = None\<rparr>"
  by (simp add: Write_def buffer_def)

lemma written_grows:
  assumes "Write bs w = Inr w'"
  shows "length (written w') - length (written w) = length bs"
  using Write_Inr_written [OF assms] by simp

text \<open>
  Claim C3, as the code has it. \<open>RecordSize\<close> counts in \<open>uint32\<close>: for each of the three
  records, when \<open>RecordWrite\<close> succeeds, \<open>RecordSize\<close> is the number of bytes it has written,
  modulo \<open>2 ^ 32\<close>; the two are equal whenever fewer than \<open>2 ^ 32\<close> bytes are written.
\<close>

theorem RecordSize_bytes_written:
  "(avc_RecordWrite a w1 = Inr w1' \<longrightarrow>
      unat (avc_RecordSize a) = (length (written w1') - length (written w1)) mod 2 ^ 32)
   \<and> (hevc_RecordWrite h w2 = Inr w2' \<longrightarrow>
      unat (hevc_RecordSize h) = (length (written w2') - length (written w2)) mod 2 ^ 32)
   \<and> (dovi_RecordWrite d w3 = Inr w3' \<longrightarrow>
      unat (dovi_RecordSize d) = (length (written w3') - length (written w3)) mod 2 ^ 32)"
proof (intro conjI impI)
  assume "avc_RecordWrite a w1 = Inr w1'"
  then have "length (written w1') - length (written w1) = length (avc_wire a)"
    by (simp add: avc_RecordWrite_wire written_grows)
  then show "unat (avc_RecordSize a) = (length (written w1') - length (written w1)) mod 2 ^ 32"
    by (simp add: avc_RecordSize_wire unat_of_nat)
next
  assume "hevc_RecordWrite h w2 = Inr w2'"
  then have "length (written w2') - length (written w2) = length (hevc_wire h)"
    by (simp add: hevc_RecordWrite_wire written_grows)
  then show "unat (hevc_RecordSize h) = (length (written w2') - length (written w2)) mod 2 ^ 32"
    by (simp add: hevc_RecordSize_wire unat_of_nat)
next
  assume "dovi_RecordWrite d w3 = Inr w3'"
  then have "length (written w3') - length (written w3) = length (dovi_tmp d)"
    by (simp add: dovi_RecordWrite_def written_grows)
  then show "unat (dovi_RecordSize d) = (length (written w3') - length (written w3)) mod 2 ^ 32"
    by (simp add: dovi_RecordSize_wire unat_of_nat)
qed

lemma avc_wire_zero: "avc_wire avc_zero = [0, 0, 0, 0, 252, 224, 0]"
  by (simp add: avc_wire_def avc_zero_def avc_has_ext_def)

lemma hevc_wire_zero:
  "hevc_wire hevc_zero = [0, 0, 0, 0, 0, 0, 0, 0, 0, 0, 0, 0, 0, 240, 0, 63, 63, 31, 31, 0, 0, 0, 0]"
  by (simp add: hevc_wire_def hevc_header_def hevc_zero_def be16_def be32_def)

theorem RecordSize_bytes_written_witness:
  "avc_RecordWrite avc_zero buffer = Inr \<lparr>written = [0, 0, 0, 0, 252, 224, 0], room = None\<rparr>
   \<and> unat (avc_RecordSize avc_zero) = 7
   \<and> hevc_RecordWrite hevc_zero buffer
       = Inr \<lparr>written = [0, 0, 0, 0, 0, 0, 0, 0, 0, 0, 0, 0, 0, 240, 0, 63, 63, 31, 31, 0, 0, 0, 0],
              room = None\<rparr>
   \<and> unat (hevc_RecordSize hevc_zero) = 23
   \<and> dovi_RecordWrite dovi_B buffer
       = Inr \<lparr>written = [1, 0, 10, 29, 32, 0, 0, 0, 0, 0, 0, 0, 0, 0, 0, 0, 0, 0, 0, 0, 0, 0, 0, 0],
              room = None\<rparr>
   \<and> unat (dovi_RecordSize dovi_B) = 24"
  using RecordSize_bytes_written [of avc_zero buffer "\<lparr>written = [0, 0, 0, 0, 252, 224, 0], room = None\<rparr>"
      hevc_zero buffer
      "\<lparr>written = [0, 0, 0, 0, 0, 0, 0, 0, 0, 0, 0, 0, 0, 240, 0, 63, 63, 31, 31, 0, 0, 0, 0], room = None\<rparr>"
      dovi_B buffer
      "\<lparr>written = [1, 0, 10, 29, 32, 0, 0, 0, 0, 0, 0, 0, 0, 0, 0, 0, 0, 0, 0, 0, 0, 0, 0, 0], room = None\<rparr>"]
  by (simp add: avc_RecordWrite_wire hevc_RecordWrite_wire dovi_RecordWrite_def Write_buffer
      avc_wire_zero hevc_wire_zero dovi_tmp_B) (simp add: buffer_def)

lemma avc_wire_huge: "avc_wire avc_huge = [0, 0, 0, 0, 252, 224, 1, 0, 0] @ replicate 4294967296 0"
  by (simp add: avc_wire_def avc_huge_def avc_zero_def avc_has_ext_def entry_wire_def be16_def)

theorem RecordSize_wraps_counterexample:
  "avc_RecordWrite avc_huge buffer
     = Inr \<lparr>written = [0, 0, 0, 0, 252, 224, 1, 0, 0] @ replicate 4294967296 0, room = None\<rparr>
   \<and> length ([0, 0, 0, 0, 252, 224, 1, 0, 0 :: byte] @ replicate 4294967296 0) = 4294967305
   \<and> unat (avc_RecordSize avc_huge) = 9"
  by (simp add: avc_RecordWrite_wire Write_buffer avc_wire_huge avc_RecordSize_wire)

section \<open>The HEVC codec on the record of scenario A\<close>

lemma replicate_numeral: "replicate (numeral k) x = x # replicate (pred_numeral k) x"
  by (simp add: numeral_eq_Suc)

lemma hevc_wire_A:
  "hevc_wire hevc_A =
     [1, 1, 96, 0, 0, 0, 176, 0, 80, 240, 0, 0, 93, 240, 0, 63, 63, 31, 31, 0, 0, 3, 3,
      160, 0, 1, 0, 5, 64, 1, 12, 1, 255,
      161, 0, 1, 0, 20, 66, 1, 1, 1, 96, 0, 0, 3, 0, 176, 0, 0, 3, 0, 0, 3, 0, 93, 160, 2,
      162, 0, 1, 0, 10, 68, 1, 193, 114, 180, 98, 64, 0, 0, 1]"
  by (simp add: hevc_wire_def hevc_header_def hevc_A_def array_wire_def entry_wire_def
      be16_def be32_def NALU_VPS_def NALU_SPS_def NALU_PPS_def)

lemma hevc_read_A:
  "hevc_RecordRead b0
     [1, 1, 96, 0, 0, 0, 176, 0, 80, 240, 0, 0, 93, 240, 0, 63, 63, 31, 31, 0, 0, 3, 3,
      160, 0, 1, 0, 5, 64, 1, 12, 1, 255,
      161, 0, 1, 0, 20, 66, 1, 1, 1, 96, 0, 0, 3, 0, 176, 0, 0, 3, 0, 0, 3, 0, 93, 160, 2,
      162, 0, 1, 0, 10, 68, 1, 193, 114, 180, 98, 64, 0, 0, 1]
   = (None, hevc_A\<lparr>ParallelismType := 3, ChromaFormatIndicator := 3,
        hevc_BitDepthLumaMinus8 := 7, hevc_BitDepthChromaMinus8 := 7\<rparr>, [])"
  by (simp add: hevc_RecordRead_def binary_Read_def ReadFull_def from_be16_def NaluArray_zero_def
      hevc_A_def NALU_VPS_def NALU_SPS_def NALU_PPS_def replicate_numeral
      read_entries.simps hevc_read_arrays.simps)

text \<open>
  Claim C2, at the record of scenario A, whose parallelism type, chroma format and two bit
  depths are 0. \<open>RecordWrite\<close> writes bytes 13 and 14 as \<open>0xF000\<close>, the 12-bit field under four
  reserved ones, but bytes 15 to 18 as \<open>0x3F\<close>, \<open>0x3F\<close>, \<open>0x1F\<close>, \<open>0x1F\<close>: the field bits
  are set and the two or three top reserved bits are clear, where the claim has \<open>0xFC\<close>,
  \<open>0xFC\<close>, \<open>0xF8\<close>, \<open>0xF8\<close>.
\<close>

theorem hevc_reserved_bits_written:
  "hevc_RecordWrite hevc_A buffer = Inr \<lparr>written = hevc_wire hevc_A, room = None\<rparr>
   \<and> take 6 (drop 13 (hevc_wire hevc_A)) = [0xF0, 0x00, 0x3F, 0x3F, 0x1F, 0x1F]
   \<and> ParallelismType hevc_A = 0 \<and> ChromaFormatIndicator hevc_A = 0
   \<and> hevc_BitDepthLumaMinus8 hevc_A = 0 \<and> hevc_BitDepthChromaMinus8 hevc_A = 0"
  by (simp add: hevc_RecordWrite_wire Write_buffer hevc_wire_A) (simp add: hevc_A_def)

text \<open>
  Claim C8, at its record. \<open>RecordSize\<close> is 73 and \<open>RecordWrite\<close> writes 73 bytes, but
  \<open>RecordRead\<close> of these bytes does not give the record back: the parallelism type and the
  chroma format come back as 3 and the two bit depths as 7, where the record has 0.
\<close>

theorem hevc_scenario_A:
  "unat (hevc_RecordSize hevc_A) = 73
   \<and> hevc_RecordWrite hevc_A buffer = Inr \<lparr>written = hevc_wire hevc_A, room = None\<rparr>
   \<and> length (hevc_wire hevc_A) = 73
   \<and> hevc_RecordRead hevc_zero (hevc_wire hevc_A)
       = (None, hevc_A\<lparr>ParallelismType := 3, ChromaFormatIndicator := 3,
            hevc_BitDepthLumaMinus8 := 7, hevc_BitDepthChromaMinus8 := 7\<rparr>, [])
   \<and> hevc_A\<lparr>ParallelismType := 3, ChromaFormatIndicator := 3,
            hevc_BitDepthLumaMinus8 := 7, hevc_BitDepthChromaMinus8 := 7\<rparr> \<noteq> hevc_A"
proof -
  have 1: "length (hevc_wire hevc_A) = 73"
    by (simp add: hevc_wire_A)
  have 2: "unat (hevc_RecordSize hevc_A) = 73"
    by (simp add: hevc_RecordSize_wire 1)
  have 3: "hevc_RecordRead hevc_zero (hevc_wire hevc_A)
       = (None, hevc_A\<lparr>ParallelismType := 3, ChromaFormatIndicator := 3,
            hevc_BitDepthLumaMinus8 := 7, hevc_BitDepthChromaMinus8 := 7\<rparr>, [])"
    unfolding hevc_wire_A by (rule hevc_read_A)
  have 4: "hevc_A\<lparr>ParallelismType := 3, ChromaFormatIndicator := 3,
            hevc_BitDepthLumaMinus8 := 7, hevc_BitDepthChromaMinus8 := 7\<rparr> \<noteq> hevc_A"
    by (simp add: hevc_A_def)
  show ?thesis
    using 1 2 3 4 by (simp add: hevc_RecordWrite_wire Write_buffer)
qed

section \<open>The HEVC record builder\<close>

text \<open>
  Claim C5, as the code has it. With an empty SPS sequence the builder faults on
  \<open>spsNalus[0]\<close> with an index-out-of-range panic, whatever the parser and the other arguments:
  it returns nothing, and so no error.
\<close>

theorem builder_empty_sps_panics:
  "CreateHEVCDecoderConfigurationRecord ParseSPSNALUnit vpsNalus [] ppsNalus
     vpsComplete spsComplete ppsComplete = Inl IndexOutOfRange"
  by (simp add: CreateHEVCDecoderConfigurationRecord_def)

theorem builder_empty_sps_counterexample:
  "CreateHEVCDecoderConfigurationRecord reject_all [[64, 1]] [] [[68, 1]] True True True
     = Inl IndexOutOfRange"
  by (simp add: CreateHEVCDecoderConfigurationRecord_def)

section \<open>Bits and bytes\<close>

lemma and_or_low:
  fixes x :: "'a::len word"
  shows "x AND k = x \<Longrightarrow> r AND k = 0 \<Longrightarrow> (x OR r) AND k = x"
  by (simp add: bit.conj_disj_distrib2)

lemma lt4_and3: "x < 4 \<Longrightarrow> x AND 3 = (x::byte)"
  using less_mask_eq [of x 2] by (simp add: mask_eq_exp_minus_1)

lemma lt8_and7: "x < 8 \<Longrightarrow> x AND 7 = (x::byte)"
  using less_mask_eq [of x 3] by (simp add: mask_eq_exp_minus_1)

lemma lt32_and31: "x < 32 \<Longrightarrow> x AND 31 = (x::byte)"
  using less_mask_eq [of x 5] by (simp add: mask_eq_exp_minus_1)

lemma lt64_and63: "x < 64 \<Longrightarrow> x AND 63 = (x::byte)"
  using less_mask_eq [of x 6] by (simp add: mask_eq_exp_minus_1)

lemma avc_low2: "x < 4 \<Longrightarrow> (x OR 252) AND 3 = (x::byte)"
  by (rule and_or_low) (simp_all add: lt4_and3)

lemma avc_low3: "x < 8 \<Longrightarrow> (x OR 248) AND 7 = (x::byte)"
  by (rule and_or_low) (simp_all add: lt8_and7)

lemma avc_low5: "x < 32 \<Longrightarrow> (x OR 224) AND 31 = (x::byte)"
  by (rule and_or_low) (simp_all add: lt32_and31)

lemma unat_byte_of_nat: "k < 256 \<Longrightarrow> unat (of_nat k :: byte) = k"
  by (simp add: unat_of_nat)

lemma unat_u16_of_nat: "k < 65536 \<Longrightarrow> unat (of_nat k :: 16 word) = k"
  by (simp add: unat_of_nat)

lemma of_nat_byte_less: "k < n \<Longrightarrow> n < 256 \<Longrightarrow> (of_nat k :: byte) < of_nat n"
  by (simp add: word_less_nat_alt unat_of_nat)

lemma from_be16_be16: "from_be16 (be16 x @ rest) = x"
  unfolding from_be16_def be16_def
  apply (rule bit_eqI)
  apply (auto simp: bit_simps)
  done

section \<open>Reading back what was written\<close>

lemma ReadFull_append: "length xs = n \<Longrightarrow> ReadFull n (xs @ rest) = (None, xs, rest)"
  by (simp add: ReadFull_def)

lemma binary_Read_append: "length xs = n \<Longrightarrow> binary_Read n (xs @ rest) = (Inr xs, rest)"
  by (simp add: binary_Read_def ReadFull_append)

lemma read_entries_done: "read_entries n n xs r = (None, xs, r)"
  by (simp add: read_entries.simps)

lemma read_entries_step:
  assumes "i < n" and "length y < 65536"
  shows "read_entries i n xs (entry_wire y @ rest) = read_entries (Suc i) n (xs[i := y]) rest"
proof -
  have 1: "binary_Read 2 (be16 (of_nat (length y)) @ y @ rest)
             = (Inr (be16 (of_nat (length y))), y @ rest)"
    by (rule binary_Read_append) (simp add: length_be16)
  have 2: "unat (from_be16 (be16 (of_nat (length y)))) = length y"
    using from_be16_be16 [of "of_nat (length y)" "[]"] assms(2) by (simp add: unat_u16_of_nat)
  have 3: "ReadFull (length y) (y @ rest) = (None, y, rest)"
    by (rule ReadFull_append) simp
  show ?thesis
    by (subst read_entries.simps) (simp add: assms(1) entry_wire_def 1 2 3)
qed

lemma read_entries_wire:
  assumes "\<forall>y\<in>set ys. length y < 65536" and "length xs = n" and "i + length ys = n"
  shows "read_entries i n xs (concat (map entry_wire ys) @ rest) = (None, take i xs @ ys, rest)"
  using assms
proof (induction ys arbitrary: i xs)
  case Nil
  then show ?case by (simp add: read_entries_done)
next
  case (Cons y ys)
  have i: "i < n" using Cons.prems(3) by simp
  have "read_entries i n xs (concat (map entry_wire (y # ys)) @ rest)
      = read_entries (Suc i) n (xs[i := y]) (concat (map entry_wire ys) @ rest)"
    using read_entries_step [OF i, of y] Cons.prems(1) by simp
  also have "\<dots> = (None, take (Suc i) (xs[i := y]) @ ys, rest)"
    using Cons.prems by (intro Cons.IH) simp_all
  also have "take (Suc i) (xs[i := y]) = take i xs @ [y]"
    using i Cons.prems(2) by (simp add: take_Suc_conv_app_nth)
  finally show ?case by simp
qed

lemma read_entries_fresh:
  assumes "\<forall>y\<in>set ys. length y < 65536"
  shows "read_entries 0 (length ys) (replicate (length ys) []) (concat (map entry_wire ys) @ rest)
           = (None, ys, rest)"
  using read_entries_wire [OF assms, of "replicate (length ys) []" "length ys" 0 rest] by simp

section \<open>The AVC codec: decoding what was encoded\<close>

lemma sps_wrap: "map (\<lambda>x. \<lparr>sps_NALUnit = sps_NALUnit x\<rparr>) xs = xs"
  by (induction xs) simp_all

lemma pps_wrap: "map (\<lambda>x. \<lparr>pps_NALUnit = pps_NALUnit x\<rparr>) xs = xs"
  by (induction xs) simp_all

lemma spse_wrap: "map (\<lambda>x. \<lparr>spse_NALUnit = spse_NALUnit x\<rparr>) xs = xs"
  by (induction xs) simp_all

lemma avc_read_sps_wire:
  assumes "avc_LengthSizeMinusOne b < 4" and "length (SequenceParameterSets b) < 32"
    and "\<forall>s \<in> set (SequenceParameterSets b). length (sps_NALUnit s) < 65536"
  shows "avc_read_sps b0
           ([avc_ConfigurationVersion b, AVCProfileIndication b, ProfileCompatibility b,
             AVCLevelIndication b, avc_LengthSizeMinusOne b OR 252,
             of_nat (length (SequenceParameterSets b)) OR 224]
            @ concat (map (\<lambda>s. entry_wire (sps_NALUnit s)) (SequenceParameterSets b)) @ rest)
         = (None,
            b0\<lparr>avc_ConfigurationVersion := avc_ConfigurationVersion b,
               AVCProfileIndication := AVCProfileIndication b,
               ProfileCompatibility := ProfileCompatibility b,
               AVCLevelIndication := AVCLevelIndication b,
               avc_LengthSizeMinusOne := avc_LengthSizeMinusOne b,
               SequenceParameterSets := SequenceParameterSets b\<rparr>,
            rest)"
proof -
  let ?hdr = "[avc_ConfigurationVersion b, AVCProfileIndication b, ProfileCompatibility b,
             AVCLevelIndication b, avc_LengthSizeMinusOne b OR 252,
             of_nat (length (SequenceParameterSets b)) OR 224]"
  let ?n = "length (SequenceParameterSets b)"
  have 1: "binary_Read 6 (?hdr @ concat (map (\<lambda>s. entry_wire (sps_NALUnit s)) (SequenceParameterSets b)) @ rest)
      = (Inr ?hdr, concat (map (\<lambda>s. entry_wire (sps_NALUnit s)) (SequenceParameterSets b)) @ rest)"
    by (rule binary_Read_append) simp
  have 2: "unat ((of_nat ?n OR 224) AND 31 :: byte) = ?n"
    using assms(2) by (simp add: avc_low5 of_nat_byte_less [of ?n 32, simplified] unat_byte_of_nat)
  have 3: "read_entries 0 ?n (replicate ?n [])
             (concat (map entry_wire (map sps_NALUnit (SequenceParameterSets b))) @ rest)
           = (None, map sps_NALUnit (SequenceParameterSets b), rest)"
    using read_entries_fresh [of "map sps_NALUnit (SequenceParameterSets b)" rest] assms(3)
    by simp
  show ?thesis
    unfolding avc_read_sps_def 1
    using 3 by (simp add: 2 avc_low2 [OF assms(1)] comp_def sps_wrap)
qed

lemma avc_read_pps_wire:
  assumes "length (PictureParameterSets b) < 256"
    and "\<forall>s \<in> set (PictureParameterSets b). length (pps_NALUnit s) < 65536"
  shows "avc_read_pps b1
           ([of_nat (length (PictureParameterSets b))]
            @ concat (map (\<lambda>s. entry_wire (pps_NALUnit s)) (PictureParameterSets b)) @ rest)
         = (None, b1\<lparr>PictureParameterSets := PictureParameterSets b\<rparr>, rest)"
proof -
  let ?n = "length (PictureParameterSets b)"
  let ?body = "concat (map (\<lambda>s. entry_wire (pps_NALUnit s)) (PictureParameterSets b)) @ rest"
  have 1: "binary_Read 1 ([of_nat ?n] @ ?body) = (Inr [of_nat ?n], ?body)"
    by (rule binary_Read_append) simp
  have 2: "unat (of_nat ?n :: byte) = ?n"
    using assms(1) by (simp add: unat_byte_of_nat)
  have 3: "read_entries 0 ?n (replicate ?n [])
             (concat (map entry_wire (map pps_NALUnit (PictureParameterSets b))) @ rest)
           = (None, map pps_NALUnit (PictureParameterSets b), rest)"
    using read_entries_fresh [of "map pps_NALUnit (PictureParameterSets b)" rest] assms(2)
    by simp
  show ?thesis
    unfolding avc_read_pps_def 1
    using 3 by (simp add: 2 comp_def pps_wrap)
qed

lemma avc_read_ext_wire:
  assumes "avc_has_ext b1"
    and "ChromaFormat b < 4" and "avc_BitDepthLumaMinus8 b < 8" and "avc_BitDepthChromaMinus8 b < 8"
    and "length (SequenceParameterSetExts b) < 256"
    and "\<forall>s \<in> set (SequenceParameterSetExts b). length (spse_NALUnit s) < 65536"
  shows "avc_read_ext b1
           ([ChromaFormat b OR 252, avc_BitDepthLumaMinus8 b OR 248,
             avc_BitDepthChromaMinus8 b OR 248, of_nat (length (SequenceParameterSetExts b))]
            @ concat (map (\<lambda>s. entry_wire (spse_NALUnit s)) (SequenceParameterSetExts b)) @ rest)
         = (None,
            b1\<lparr>ChromaFormat := ChromaFormat b,
               avc_BitDepthLumaMinus8 := avc_BitDepthLumaMinus8 b,
               avc_BitDepthChromaMinus8 := avc_BitDepthChromaMinus8 b,
               SequenceParameterSetExts := SequenceParameterSetExts b\<rparr>,
            rest)"
proof -
  let ?n = "length (SequenceParameterSetExts b)"
  let ?hdr = "[ChromaFormat b OR 252, avc_BitDepthLumaMinus8 b OR 248,
             avc_BitDepthChromaMinus8 b OR 248, of_nat ?n]"
  let ?body = "concat (map (\<lambda>s. entry_wire (spse_NALUnit s)) (SequenceParameterSetExts b)) @ rest"
  have 1: "binary_Read 4 (?hdr @ ?body) = (Inr ?hdr, ?body)"
    by (rule binary_Read_append) simp
  have 2: "unat (of_nat ?n :: byte) = ?n"
    using assms(5) by (simp add: unat_byte_of_nat)
  have 3: "read_entries 0 ?n (replicate ?n [])
             (concat (map entry_wire (map spse_NALUnit (SequenceParameterSetExts b))) @ rest)
           = (None, map spse_NALUnit (SequenceParameterSetExts b), rest)"
    using read_entries_fresh [of "map spse_NALUnit (SequenceParameterSetExts b)" rest] assms(6)
    by simp
  have 4: "avc_has_ext (b1\<lparr>ChromaFormat := c, avc_BitDepthLumaMinus8 := l,
      avc_BitDepthChromaMinus8 := d\<rparr>)" for c l d
    using assms(1) by (simp add: avc_has_ext_def)
  show ?thesis
    unfolding avc_read_ext_def 1
    using 3 by (simp add: assms(1) 2 comp_def spse_wrap avc_low2 [OF assms(2)]
        avc_low3 [OF assms(3)] avc_low3 [OF assms(4)])
qed

lemma avc_read_ext_skip: "\<not> avc_has_ext b1 \<Longrightarrow> avc_read_ext b1 r = (None, b1, r)"
  by (simp add: avc_read_ext_def)

lemma and_then_None: "and_then (None, b, r) f = f b r"
  by (simp add: and_then_def)

lemma and_then_Some: "and_then (Some e, b, r) f = (Some e, b, r)"
  by (simp add: and_then_def)

lemma avc_roundtrip:
  assumes "avc_valid b"
  shows "avc_RecordRead b0 (avc_wire b @ rest) = (None, avc_read_back b0 b, rest)"
proof -
  let ?b1 = "b0\<lparr>avc_ConfigurationVersion := avc_ConfigurationVersion b,
               AVCProfileIndication := AVCProfileIndication b,
               ProfileCompatibility := ProfileCompatibility b,
               AVCLevelIndication := AVCLevelIndication b,
               avc_LengthSizeMinusOne := avc_LengthSizeMinusOne b,
               SequenceParameterSets := SequenceParameterSets b\<rparr>"
  let ?b2 = "?b1\<lparr>PictureParameterSets := PictureParameterSets b\<rparr>"
  let ?ext = "if avc_has_ext b then
          [ChromaFormat b OR 252, avc_BitDepthLumaMinus8 b OR 248, avc_BitDepthChromaMinus8 b OR 248,
           of_nat (length (SequenceParameterSetExts b))]
          @ concat (map (\<lambda>s. entry_wire (spse_NALUnit s)) (SequenceParameterSetExts b))
        else []"
  let ?pps = "[of_nat (length (PictureParameterSets b))]
     @ concat (map (\<lambda>s. entry_wire (pps_NALUnit s)) (PictureParameterSets b))"
  have v: "avc_LengthSizeMinusOne b < 4" "length (SequenceParameterSets b) < 32"
    "\<forall>s \<in> set (SequenceParameterSets b). length (sps_NALUnit s) < 65536"
    "length (PictureParameterSets b) < 256"
    "\<forall>s \<in> set (PictureParameterSets b). length (pps_NALUnit s) < 65536"
    using assms by (simp_all add: avc_valid_def)
  have w: "avc_wire b @ rest =
      [avc_ConfigurationVersion b, AVCProfileIndication b, ProfileCompatibility b,
       AVCLevelIndication b, avc_LengthSizeMinusOne b OR 252,
       of_nat (length (SequenceParameterSets b)) OR 224]
      @ concat (map (\<lambda>s. entry_wire (sps_NALUnit s)) (SequenceParameterSets b))
      @ (?pps @ ?ext @ rest)"
    by (simp add: avc_wire_def)
  have 1: "avc_read_sps b0 (avc_wire b @ rest) = (None, ?b1, ?pps @ ?ext @ rest)"
    unfolding w by (rule avc_read_sps_wire [OF v(1-3)])
  have 2: "avc_read_pps ?b1 (?pps @ ?ext @ rest) = (None, ?b2, ?ext @ rest)"
    using avc_read_pps_wire [OF v(4,5), of ?b1 "?ext @ rest"] by simp
  have e: "avc_has_ext ?b2 = avc_has_ext b"
    by (simp add: avc_has_ext_def)
  have 3: "avc_read_ext ?b2 (?ext @ rest) = (None, avc_read_back b0 b, rest)"
  proof (cases "avc_has_ext b")
    case True
    then have x: "ChromaFormat b < 4" "avc_BitDepthLumaMinus8 b < 8" "avc_BitDepthChromaMinus8 b < 8"
      "length (SequenceParameterSetExts b) < 256"
      "\<forall>s \<in> set (SequenceParameterSetExts b). length (spse_NALUnit s) < 65536"
      using assms by (simp_all add: avc_valid_def)
    have t: "avc_has_ext ?b2" using True e by simp
    show ?thesis
      using avc_read_ext_wire [OF t x, of rest] True by (simp add: avc_read_back_def)
  next
    case False
    then have f: "\<not> avc_has_ext ?b2" using e by simp
    show ?thesis
      using avc_read_ext_skip [OF f, of rest] False by (simp add: avc_read_back_def)
  qed
  show ?thesis
    by (simp only: avc_RecordRead_def 1 2 3 and_then_None)
qed

section \<open>The section of the AVC extension\<close>

lemma avc_wire_split:
  "avc_wire b = avc_main_wire b @ (if avc_has_ext b then avc_ext_wire b else [])"
  by (simp add: avc_wire_def avc_main_wire_def avc_ext_wire_def)

lemma avc_has_ext_iff: "avc_has_ext b \<longleftrightarrow> AVCProfileIndication b \<in> {100, 110, 122, 144}"
  by (auto simp: avc_has_ext_def)

text \<open>
  Claim C7. What \<open>RecordWrite\<close> writes is the header and the two parameter set arrays, followed
  by the section of the extension if and only if the profile indication is 100, 110, 122 or
  144; the section is then at least its four fixed bytes, also with no SPS extension.
  \<open>RecordSize\<close> counts the same bytes. \<open>RecordRead\<close> on a fresh record reads the section back
  under the same condition and consumes exactly the bytes written: for one of the four
  profiles it returns the record, for any other profile it returns the record with chroma
  format and bit depths 0 and no SPS extension.
\<close>

theorem avc_extension_section:
  "avc_RecordWrite b buffer =
     Inr \<lparr>written = avc_main_wire b
             @ (if AVCProfileIndication b \<in> {100, 110, 122, 144} then avc_ext_wire b else []),
          room = None\<rparr>
   \<and> length (avc_ext_wire b) \<ge> 4
   \<and> avc_RecordSize b =
       of_nat (length (avc_main_wire b)
               + (if AVCProfileIndication b \<in> {100, 110, 122, 144} then length (avc_ext_wire b) else 0))
   \<and> (avc_valid b \<longrightarrow>
        avc_RecordRead avc_zero
          (avc_main_wire b
           @ (if AVCProfileIndication b \<in> {100, 110, 122, 144} then avc_ext_wire b else []) @ rest)
        = (None,
           (if AVCProfileIndication b \<in> {100, 110, 122, 144} then b
            else b\<lparr>ChromaFormat := 0, avc_BitDepthLumaMinus8 := 0, avc_BitDepthChromaMinus8 := 0,
                   SequenceParameterSetExts := []\<rparr>),
           rest))"
proof (intro conjI impI)
  show "avc_RecordWrite b buffer =
     Inr \<lparr>written = avc_main_wire b
             @ (if AVCProfileIndication b \<in> {100, 110, 122, 144} then avc_ext_wire b else []),
          room = None\<rparr>"
    by (simp only: avc_RecordWrite_wire Write_buffer avc_wire_split avc_has_ext_iff)
  show "length (avc_ext_wire b) \<ge> 4"
    by (simp add: avc_ext_wire_def)
  show "avc_RecordSize b =
       of_nat (length (avc_main_wire b)
               + (if AVCProfileIndication b \<in> {100, 110, 122, 144} then length (avc_ext_wire b) else 0))"
    unfolding avc_RecordSize_wire avc_wire_split avc_has_ext_iff by simp
next
  assume v: "avc_valid b"
  have "avc_RecordRead avc_zero (avc_wire b @ rest) = (None, avc_read_back avc_zero b, rest)"
    using v by (rule avc_roundtrip)
  moreover have "avc_read_back avc_zero b =
      (if AVCProfileIndication b \<in> {100, 110, 122, 144} then b
       else b\<lparr>ChromaFormat := 0, avc_BitDepthLumaMinus8 := 0, avc_BitDepthChromaMinus8 := 0,
              SequenceParameterSetExts := []\<rparr>)"
    unfolding avc_read_back_def avc_has_ext_iff by (simp add: avc_zero_def)
  ultimately show "avc_RecordRead avc_zero
          (avc_main_wire b
           @ (if AVCProfileIndication b \<in> {100, 110, 122, 144} then avc_ext_wire b else []) @ rest)
        = (None,
           (if AVCProfileIndication b \<in> {100, 110, 122, 144} then b
            else b\<lparr>ChromaFormat := 0, avc_BitDepthLumaMinus8 := 0, avc_BitDepthChromaMinus8 := 0,
                   SequenceParameterSetExts := []\<rparr>),
           rest)"
    unfolding avc_wire_split avc_has_ext_iff by simp
qed

lemma avc_valid_66: "avc_valid avc_66"
  by (simp add: avc_valid_def avc_66_def avc_has_ext_def)

lemma avc_valid_100: "avc_valid avc_100"
  by (simp add: avc_valid_def avc_100_def avc_has_ext_def)

theorem avc_extension_section_witness:
  "avc_RecordWrite avc_66 buffer
     = Inr \<lparr>written = [1, 66, 192, 30, 255, 225, 0, 4, 103, 66, 192, 30, 1, 0, 2, 104, 206],
            room = None\<rparr>
   \<and> avc_RecordSize avc_66 = 17
   \<and> avc_RecordRead avc_zero [1, 66, 192, 30, 255, 225, 0, 4, 103, 66, 192, 30, 1, 0, 2, 104, 206]
       = (None, avc_66, [])
   \<and> avc_RecordWrite avc_100 buffer
     = Inr \<lparr>written = [1, 100, 0, 40, 255, 225, 0, 4, 103, 100, 0, 40, 1, 0, 2, 104, 238,
                       253, 250, 250, 0],
            room = None\<rparr>
   \<and> avc_RecordSize avc_100 = 21
   \<and> avc_RecordRead avc_zero [1, 100, 0, 40, 255, 225, 0, 4, 103, 100, 0, 40, 1, 0, 2, 104, 238,
                       253, 250, 250, 0]
       = (None, avc_100, [])"
proof -
  have m66: "avc_main_wire avc_66 = [1, 66, 192, 30, 255, 225, 0, 4, 103, 66, 192, 30, 1, 0, 2, 104, 206]"
    by (simp add: avc_main_wire_def avc_66_def entry_wire_def be16_def)
  have m100: "avc_main_wire avc_100 = [1, 100, 0, 40, 255, 225, 0, 4, 103, 100, 0, 40, 1, 0, 2, 104, 238]"
    by (simp add: avc_main_wire_def avc_100_def entry_wire_def be16_def)
  have e100: "avc_ext_wire avc_100 = [253, 250, 250, 0]"
    by (simp add: avc_ext_wire_def avc_100_def)
  have p: "AVCProfileIndication avc_66 = 66" "AVCProfileIndication avc_100 = 100"
    by (simp_all add: avc_66_def avc_100_def)
  have z: "avc_66\<lparr>ChromaFormat := 0, avc_BitDepthLumaMinus8 := 0, avc_BitDepthChromaMinus8 := 0,
                   SequenceParameterSetExts := []\<rparr> = avc_66"
    by (simp add: avc_66_def)
  show ?thesis
    using avc_extension_section [of avc_66 "[]"] avc_extension_section [of avc_100 "[]"]
    by (simp add: avc_valid_66 avc_valid_100 m66 m100 e100 p z)
qed

section \<open>What a successful decode returns\<close>

lemma word_lt_from_bits:
  fixes x :: "'a::len word"
  assumes "n < LENGTH('a)" and "\<And>m. n \<le> m \<Longrightarrow> \<not> bit x m"
  shows "x < 2 ^ n"
proof -
  have "x AND mask n = x"
  proof (rule bit_eqI)
    fix m
    show "bit (x AND mask n) m = bit x m"
    proof (cases "n \<le> m")
      case True
      then show ?thesis using assms(2) [of m] by (simp add: bit_simps)
    next
      case False
      then show ?thesis by (auto simp: bit_simps dest: bit_imp_le_length)
    qed
  qed
  then show ?thesis
    using and_mask_less' [OF assms(1), of x] by simp
qed

lemma and3_lt4: "(x::byte) AND 3 < 4"
  by (rule order_le_less_trans [OF word_and_le1]) simp

lemma and7_lt8: "(x::byte) AND 7 < 8"
  by (rule order_le_less_trans [OF word_and_le1]) simp

lemma and31_lt32: "(x::byte) AND 31 < 32"
  by (rule order_le_less_trans [OF word_and_le1]) simp

lemma drop6_lt4: "drop_bit 6 (x::byte) < 4"
proof -
  have "\<not> bit (drop_bit 6 x) m" if "2 \<le> m" for m
    using that bit_imp_le_length [of x "6 + m"] by (auto simp: bit_simps)
  from word_lt_from_bits [of 2 "drop_bit 6 x", OF _ this] show ?thesis by simp
qed

lemma bit_and15: "bit ((a::byte) AND 15) m \<Longrightarrow> m < 4"
proof -
  have "(15::byte) = mask 4" by (simp add: mask_eq_exp_minus_1)
  then show "bit (a AND 15) m \<Longrightarrow> m < 4" by (simp add: bit_simps)
qed

lemma u12_lt: "push_bit 8 (ucast ((a::byte) AND 15)) OR ucast (b::byte) < (4096 :: 16 word)"
proof -
  have "\<not> bit (push_bit 8 (ucast (a AND 15)) OR ucast b :: 16 word) m" if "12 \<le> m" for m
    using that bit_and15 [of a "m - 8"] bit_imp_le_length [of b m]
    by (auto simp: bit_simps)
  from word_lt_from_bits [of 12 "push_bit 8 (ucast (a AND 15)) OR ucast b :: 16 word", OF _ this]
  show ?thesis by simp
qed

lemma u48_lt:
  "push_bit 40 (ucast (a::byte)) OR push_bit 32 (ucast (b::byte)) OR push_bit 24 (ucast (c::byte))
     OR push_bit 16 (ucast (d::byte)) OR push_bit 8 (ucast (e::byte)) OR ucast (f::byte)
   < (2 ^ 48 :: 64 word)"
proof -
  have "\<not> bit (push_bit 40 (ucast a) OR push_bit 32 (ucast b) OR push_bit 24 (ucast c)
     OR push_bit 16 (ucast d) OR push_bit 8 (ucast e) OR ucast f :: 64 word) m" if "48 \<le> m" for m
    using that bit_imp_le_length [of a "m - 40"] bit_imp_le_length [of b "m - 32"]
      bit_imp_le_length [of c "m - 24"] bit_imp_le_length [of d "m - 16"]
      bit_imp_le_length [of e "m - 8"] bit_imp_le_length [of f m]
    by (auto simp: bit_simps)
  from word_lt_from_bits [of 48 "push_bit 40 (ucast a) OR push_bit 32 (ucast b) OR push_bit 24 (ucast c)
     OR push_bit 16 (ucast d) OR push_bit 8 (ucast e) OR ucast f :: 64 word", OF _ this]
  show ?thesis by simp
qed

lemma read_entries_length:
  "read_entries i n xs r = (err, xs', r') \<Longrightarrow> length xs' = length xs"
proof (induction i n xs r rule: read_entries.induct)
  case (1 i n xs r)
  show ?case
  proof (cases "i < n")
    case False
    then show ?thesis using "1.prems" by (simp add: read_entries.simps)
  next
    case True
    obtain res r1 where b: "binary_Read 2 r = (res, r1)" by (cases "binary_Read 2 r")
    show ?thesis
    proof (cases res)
      case (Inl e)
      then show ?thesis using "1.prems" True b by (simp add: read_entries.simps)
    next
      case (Inr len)
      obtain err2 buf r2 where f: "ReadFull (unat (from_be16 len)) r1 = (err2, buf, r2)"
        by (cases "ReadFull (unat (from_be16 len)) r1")
      show ?thesis
      proof (cases err2)
        case (Some e)
        then show ?thesis using "1.prems" True b Inr f by (auto simp: read_entries.simps)
      next
        case None
        have "read_entries (Suc i) n (xs[i := buf]) r2 = (err, xs', r')"
          using "1.prems" True b Inr f None by (simp add: read_entries.simps)
        from "1.IH" [OF True b [symmetric] Inr f [symmetric] None refl this]
        show ?thesis by simp
      qed
    qed
  qed
qed

lemma hevc_read_arrays_counts:
  "hevc_read_arrays i n arrs r = (err, arrs', r')
   \<Longrightarrow> \<forall>a \<in> set arrs. length (NALUs a) < 4096
   \<Longrightarrow> \<forall>a \<in> set arrs'. length (NALUs a) < 4096"
proof (induction i n arrs r rule: hevc_read_arrays.induct)
  case (1 i n arrs r)
  show ?case
  proof (cases "i < n")
    case False
    then show ?thesis using "1.prems" by (simp add: hevc_read_arrays.simps)
  next
    case True
    obtain res r1 where b: "binary_Read 3 r = (res, r1)" by (cases "binary_Read 3 r")
    show ?thesis
    proof (cases res)
      case (Inl e)
      then show ?thesis using "1.prems" True b by (simp add: hevc_read_arrays.simps)
    next
      case (Inr tmp)
      define naluCount where
        "naluCount = unat (push_bit 8 (ucast (tmp ! 1 AND 15)) OR ucast (tmp ! 2) :: 16 word)"
      obtain err2 nalus r2 where
        f: "read_entries 0 naluCount (replicate naluCount []) r1 = (err2, nalus, r2)"
        by (cases "read_entries 0 naluCount (replicate naluCount []) r1")
      define entry where "entry = \<lparr>ArrayCompleteness = (drop_bit 7 (tmp ! 0) > 0),
                                 NALUnitType = tmp ! 0 AND 63, NALUs = nalus\<rparr>"
      have "naluCount < 4096"
        using u12_lt [of "tmp ! 1" "tmp ! 2"] by (simp add: naluCount_def word_less_nat_alt)
      then have "length nalus < 4096"
        using read_entries_length [OF f] by simp
      then have e: "\<forall>a \<in> set (arrs[i := entry]). length (NALUs a) < 4096"
        using "1.prems"(2) set_update_subset_insert [of arrs i entry]
        by (auto simp: entry_def)
      show ?thesis
      proof (cases err2)
        case (Some e2)
        then have "arrs' = arrs[i := entry]"
          using "1.prems"(1) True b Inr f
          by (auto simp: hevc_read_arrays.simps Let_def naluCount_def entry_def)
        then show ?thesis using e by simp
      next
        case None
        have "hevc_read_arrays (Suc i) n (arrs[i := entry]) r2 = (err, arrs', r')"
          using "1.prems"(1) True b Inr f None
          by (simp add: hevc_read_arrays.simps Let_def naluCount_def entry_def)
        from "1.IH" [OF True b [symmetric] Inr refl f [unfolded naluCount_def, symmetric] None refl
            this [unfolded entry_def] e [unfolded entry_def]]
        show ?thesis .
      qed
    qed
  qed
qed

lemma and_then_NoneD:
  assumes "and_then x f = (None, b, r)"
  obtains b1 r1 where "x = (None, b1, r1)" and "f b1 r1 = (None, b, r)"
proof -
  obtain e b1 r1 where x: "x = (e, b1, r1)" by (cases x)
  show ?thesis
  proof (cases e)
    case None
    then show ?thesis using assms x that by (simp add: and_then_def)
  next
    case (Some a)
    then show ?thesis using assms x by (simp add: and_then_def)
  qed
qed

lemma avc_read_sps_ranges:
  assumes "avc_read_sps b r = (None, b1, r1)"
  shows "avc_LengthSizeMinusOne b1 < 4 \<and> length (SequenceParameterSets b1) < 32
       \<and> ChromaFormat b1 = ChromaFormat b
       \<and> avc_BitDepthLumaMinus8 b1 = avc_BitDepthLumaMinus8 b
       \<and> avc_BitDepthChromaMinus8 b1 = avc_BitDepthChromaMinus8 b"
proof -
  obtain res r0 where h: "binary_Read 6 r = (res, r0)" by (cases "binary_Read 6 r")
  show ?thesis
  proof (cases res)
    case (Inl e)
    then show ?thesis using assms h by (simp add: avc_read_sps_def)
  next
    case (Inr tmp)
    define n where "n = unat (tmp ! 5 AND 31)"
    obtain err xs r2 where f: "read_entries 0 n (replicate n []) r0 = (err, xs, r2)"
      by (cases "read_entries 0 n (replicate n []) r0")
    have n: "n < 32"
      using and31_lt32 [of "tmp ! 5"] by (simp add: n_def word_less_nat_alt)
    have l: "length xs = n"
      using read_entries_length [OF f] by simp
    have "b1 = b\<lparr>avc_ConfigurationVersion := tmp ! 0,
                     AVCProfileIndication := tmp ! 1,
                     ProfileCompatibility := tmp ! 2,
                     AVCLevelIndication := tmp ! 3,
                     avc_LengthSizeMinusOne := tmp ! 4 AND 3,
                     SequenceParameterSets := map (\<lambda>x. \<lparr>sps_NALUnit = x\<rparr>) xs\<rparr>"
      using assms h Inr f by (simp add: avc_read_sps_def Let_def n_def)
    then show ?thesis
      using n l by (simp add: and3_lt4)
  qed
qed

lemma avc_read_pps_keeps:
  assumes "avc_read_pps b r = (err, b1, r1)"
  shows "avc_LengthSizeMinusOne b1 = avc_LengthSizeMinusOne b
       \<and> SequenceParameterSets b1 = SequenceParameterSets b
       \<and> ChromaFormat b1 = ChromaFormat b
       \<and> avc_BitDepthLumaMinus8 b1 = avc_BitDepthLumaMinus8 b
       \<and> avc_BitDepthChromaMinus8 b1 = avc_BitDepthChromaMinus8 b"
proof -
  obtain res r0 where h: "binary_Read 1 r = (res, r0)" by (cases "binary_Read 1 r")
  show ?thesis
  proof (cases res)
    case (Inl e)
    then show ?thesis using assms h by (auto simp: avc_read_pps_def)
  next
    case (Inr tmp)
    obtain err2 xs r2 where
      f: "read_entries 0 (unat (tmp ! 0)) (replicate (unat (tmp ! 0)) []) r0 = (err2, xs, r2)"
      by (cases "read_entries 0 (unat (tmp ! 0)) (replicate (unat (tmp ! 0)) []) r0")
    show ?thesis
      using assms h Inr f by (auto simp: avc_read_pps_def Let_def)
  qed
qed

lemma avc_read_ext_ranges:
  assumes "avc_read_ext b r = (None, b1, r1)"
  shows "avc_LengthSizeMinusOne b1 = avc_LengthSizeMinusOne b
       \<and> SequenceParameterSets b1 = SequenceParameterSets b
       \<and> (ChromaFormat b1 < 4 \<and> avc_BitDepthLumaMinus8 b1 < 8 \<and> avc_BitDepthChromaMinus8 b1 < 8
          \<or> ChromaFormat b1 = ChromaFormat b
            \<and> avc_BitDepthLumaMinus8 b1 = avc_BitDepthLumaMinus8 b
            \<and> avc_BitDepthChromaMinus8 b1 = avc_BitDepthChromaMinus8 b)"
proof (cases "avc_has_ext b")
  case False
  then show ?thesis using assms by (auto simp: avc_read_ext_def)
next
  case True
  obtain res r0 where h: "binary_Read 4 r = (res, r0)" by (cases "binary_Read 4 r")
  show ?thesis
  proof (cases res)
    case (Inl e)
    then show ?thesis using assms h True by (simp add: avc_read_ext_def)
  next
    case (Inr tmp)
    obtain err2 xs r2 where
      f: "read_entries 0 (unat (tmp ! 3)) (replicate (unat (tmp ! 3)) []) r0 = (err2, xs, r2)"
      by (cases "read_entries 0 (unat (tmp ! 3)) (replicate (unat (tmp ! 3)) []) r0")
    have "b1 = b\<lparr>ChromaFormat := tmp ! 0 AND 3,
                        avc_BitDepthLumaMinus8 := tmp ! 1 AND 7,
                        avc_BitDepthChromaMinus8 := tmp ! 2 AND 7,
                        SequenceParameterSetExts := map (\<lambda>x. \<lparr>spse_NALUnit = x\<rparr>) xs\<rparr>"
      using assms h Inr f True by (simp add: avc_read_ext_def Let_def)
    then show ?thesis
      by (simp add: and3_lt4 and7_lt8)
  qed
qed

lemma avc_decode_ranges:
  assumes "avc_RecordRead b0 r = (None, b, r')"
    and "ChromaFormat b0 < 4" and "avc_BitDepthLumaMinus8 b0 < 8" and "avc_BitDepthChromaMinus8 b0 < 8"
  shows "avc_LengthSizeMinusOne b < 4 \<and> length (SequenceParameterSets b) \<le> 31
       \<and> ChromaFormat b < 4 \<and> avc_BitDepthLumaMinus8 b < 8 \<and> avc_BitDepthChromaMinus8 b < 8"
proof -
  from assms(1) obtain b2 r2 where
    12: "and_then (avc_read_sps b0 r) avc_read_pps = (None, b2, r2)"
    and 3: "avc_read_ext b2 r2 = (None, b, r')"
    unfolding avc_RecordRead_def by (rule and_then_NoneD)
  from 12 obtain b1 r1 where
    1: "avc_read_sps b0 r = (None, b1, r1)" and 2: "avc_read_pps b1 r1 = (None, b2, r2)"
    by (rule and_then_NoneD)
  show ?thesis
    using avc_read_sps_ranges [OF 1] avc_read_pps_keeps [OF 2] avc_read_ext_ranges [OF 3] assms(2-4)
    by auto
qed

lemma hevc_decode_ranges:
  assumes "hevc_RecordRead b0 r = (None, b, r')"
  shows "GeneralProfileSpace b < 4 \<and> GenertalProfileIndicator b < 32
       \<and> GeneralConstraintIndicatorFlags b < 2 ^ 48
       \<and> MinSpatialSegmentationIndicator b < 2 ^ 12
       \<and> ParallelismType b < 4 \<and> ChromaFormatIndicator b < 4
       \<and> hevc_BitDepthLumaMinus8 b < 8 \<and> hevc_BitDepthChromaMinus8 b < 8
       \<and> hevc_LengthSizeMinusOne b < 4
       \<and> (\<forall>a \<in> set (NaluArrays b). length (NALUs a) \<le> 4095)"
proof -
  obtain res r0 where h: "binary_Read 23 r = (res, r0)" by (cases "binary_Read 23 r")
  show ?thesis
  proof (cases res)
    case (Inl e)
    then show ?thesis using assms h by (simp add: hevc_RecordRead_def)
  next
    case (Inr tmp)
    define n where "n = unat (tmp ! 22)"
    obtain err arrs r2 where
      f: "hevc_read_arrays 0 n (replicate n NaluArray_zero) r0 = (err, arrs, r2)"
      by (cases "hevc_read_arrays 0 n (replicate n NaluArray_zero) r0")
    have "\<forall>a \<in> set (replicate n NaluArray_zero). length (NALUs a) < 4096"
      by (simp add: NaluArray_zero_def)
    from hevc_read_arrays_counts [OF f this]
    have c: "\<forall>a \<in> set arrs. length (NALUs a) \<le> 4095" by auto
    have "NaluArrays b = arrs" "GeneralProfileSpace b = drop_bit 6 (tmp ! 1)"
      "GenertalProfileIndicator b = tmp ! 1 AND 31"
      "GeneralConstraintIndicatorFlags b =
          push_bit 40 (ucast (tmp ! 6)) OR push_bit 32 (ucast (tmp ! 7))
          OR push_bit 24 (ucast (tmp ! 8)) OR push_bit 16 (ucast (tmp ! 9))
          OR push_bit 8 (ucast (tmp ! 10)) OR ucast (tmp ! 11)"
      "MinSpatialSegmentationIndicator b = push_bit 8 (ucast (tmp ! 13 AND 15)) OR ucast (tmp ! 14)"
      "ParallelismType b = tmp ! 15 AND 3" "ChromaFormatIndicator b = tmp ! 16 AND 3"
      "hevc_BitDepthLumaMinus8 b = tmp ! 17 AND 7" "hevc_BitDepthChromaMinus8 b = tmp ! 18 AND 7"
      "hevc_LengthSizeMinusOne b = tmp ! 21 AND 3"
      using assms h Inr f by (auto simp: hevc_RecordRead_def Let_def n_def)
    then show ?thesis
      using c u48_lt [of "tmp ! 6" "tmp ! 7" "tmp ! 8" "tmp ! 9" "tmp ! 10" "tmp ! 11"]
        u12_lt [of "tmp ! 13" "tmp ! 14"]
      by (simp add: drop6_lt4 and31_lt32 and3_lt4 and7_lt8)
  qed
qed

lemma avc_wire_66:
  "avc_wire avc_66 = [1, 66, 192, 30, 255, 225, 0, 4, 103, 66, 192, 30, 1, 0, 2, 104, 206]"
  by (simp add: avc_wire_def avc_66_def avc_has_ext_def entry_wire_def be16_def)

lemma avc_read_66:
  "avc_RecordRead avc_zero [1, 66, 192, 30, 255, 225, 0, 4, 103, 66, 192, 30, 1, 0, 2, 104, 206]
     = (None, avc_66, [])"
proof -
  have "avc_read_back avc_zero avc_66 = avc_66"
    by (simp add: avc_read_back_def avc_66_def avc_zero_def avc_has_ext_def)
  then show ?thesis
    using avc_roundtrip [OF avc_valid_66, of avc_zero "[]"] by (simp add: avc_wire_66)
qed

text \<open>
  Claim C10. Whatever the bytes, a record that \<open>RecordRead\<close> returns without an error has its
  fields within their bit widths. For HEVC, on any record: profile space below 4, profile
  indicator below 32, constraint flags below \<open>2 ^ 48\<close>, min spatial segmentation below
  \<open>2 ^ 12\<close>, parallelism type and chroma format below 4, both bit depths below 8, length size
  minus one below 4, at most 4095 NAL units in each array. For AVC, on a fresh record: length
  size minus one below 4, at most 31 sequence parameter sets, chroma format below 4, both bit
  depths below 8.
\<close>

theorem decoded_fields_in_range:
  "(hevc_RecordRead h0 r1 = (None, h, r1') \<longrightarrow>
      GeneralProfileSpace h < 4 \<and> GenertalProfileIndicator h < 32
      \<and> GeneralConstraintIndicatorFlags h < 2 ^ 48
      \<and> MinSpatialSegmentationIndicator h < 2 ^ 12
      \<and> ParallelismType h < 4 \<and> ChromaFormatIndicator h < 4
      \<and> hevc_BitDepthLumaMinus8 h < 8 \<and> hevc_BitDepthChromaMinus8 h < 8
      \<and> hevc_LengthSizeMinusOne h < 4
      \<and> (\<forall>a \<in> set (NaluArrays h). length (NALUs a) \<le> 4095))
   \<and> (avc_RecordRead avc_zero r2 = (None, a, r2') \<longrightarrow>
      avc_LengthSizeMinusOne a < 4 \<and> length (SequenceParameterSets a) \<le> 31
      \<and> ChromaFormat a < 4 \<and> avc_BitDepthLumaMinus8 a < 8 \<and> avc_BitDepthChromaMinus8 a < 8)"
proof (intro conjI impI)
  assume "avc_RecordRead avc_zero r2 = (None, a, r2')"
  then have "avc_LengthSizeMinusOne a < 4 \<and> length (SequenceParameterSets a) \<le> 31
      \<and> ChromaFormat a < 4 \<and> avc_BitDepthLumaMinus8 a < 8 \<and> avc_BitDepthChromaMinus8 a < 8"
    by (rule avc_decode_ranges) (simp_all add: avc_zero_def)
  then show "avc_LengthSizeMinusOne a < 4" "length (SequenceParameterSets a) \<le> 31"
    "ChromaFormat a < 4" "avc_BitDepthLumaMinus8 a < 8" "avc_BitDepthChromaMinus8 a < 8"
    by simp_all
next
  assume "hevc_RecordRead h0 r1 = (None, h, r1')"
  then have "GeneralProfileSpace h < 4 \<and> GenertalProfileIndicator h < 32
      \<and> GeneralConstraintIndicatorFlags h < 2 ^ 48
      \<and> MinSpatialSegmentationIndicator h < 2 ^ 12
      \<and> ParallelismType h < 4 \<and> ChromaFormatIndicator h < 4
      \<and> hevc_BitDepthLumaMinus8 h < 8 \<and> hevc_BitDepthChromaMinus8 h < 8
      \<and> hevc_LengthSizeMinusOne h < 4
      \<and> (\<forall>a \<in> set (NaluArrays h). length (NALUs a) \<le> 4095)"
    by (rule hevc_decode_ranges)
  then show "GeneralProfileSpace h < 4" "GenertalProfileIndicator h < 32"
    "GeneralConstraintIndicatorFlags h < 2 ^ 48" "MinSpatialSegmentationIndicator h < 2 ^ 12"
    "ParallelismType h < 4" "ChromaFormatIndicator h < 4"
    "hevc_BitDepthLumaMinus8 h < 8" "hevc_BitDepthChromaMinus8 h < 8"
    "hevc_LengthSizeMinusOne h < 4" "\<forall>a \<in> set (NaluArrays h). length (NALUs a) \<le> 4095"
    by simp_all
qed

theorem decoded_fields_in_range_witness:
  "hevc_RecordRead hevc_zero (hevc_wire hevc_A)
     = (None, hevc_A\<lparr>ParallelismType := 3, ChromaFormatIndicator := 3,
          hevc_BitDepthLumaMinus8 := 7, hevc_BitDepthChromaMinus8 := 7\<rparr>, [])
   \<and> length (NALUs (NaluArrays hevc_A ! 0)) \<le> 4095
   \<and> GenertalProfileIndicator hevc_A < 32
   \<and> avc_RecordRead avc_zero [1, 66, 192, 30, 255, 225, 0, 4, 103, 66, 192, 30, 1, 0, 2, 104, 206]
       = (None, avc_66, [])
   \<and> length (SequenceParameterSets avc_66) \<le> 31 \<and> avc_LengthSizeMinusOne avc_66 < 4"
proof -
  have 1: "hevc_RecordRead hevc_zero (hevc_wire hevc_A)
     = (None, hevc_A\<lparr>ParallelismType := 3, ChromaFormatIndicator := 3,
          hevc_BitDepthLumaMinus8 := 7, hevc_BitDepthChromaMinus8 := 7\<rparr>, [])"
    unfolding hevc_wire_A by (rule hevc_read_A)
  show ?thesis
    using decoded_fields_in_range [of hevc_zero "hevc_wire hevc_A"
        "hevc_A\<lparr>ParallelismType := 3, ChromaFormatIndicator := 3,
          hevc_BitDepthLumaMinus8 := 7, hevc_BitDepthChromaMinus8 := 7\<rparr>" "[]"
        "[1, 66, 192, 30, 255, 225, 0, 4, 103, 66, 192, 30, 1, 0, 2, 104, 206]" avc_66 "[]"]
      1 avc_read_66
    by (simp add: hevc_A_def)
qed

section \<open>The HEVC round trip\<close>

lemma hevc_wire_A_high:
  "hevc_wire hevc_A_high =
     [1, 17, 96, 0, 0, 0, 176, 0, 80, 240, 0, 0, 93, 240, 0, 63, 63, 31, 31, 0, 0, 3, 3,
      160, 0, 1, 0, 5, 64, 1, 12, 1, 255,
      161, 0, 1, 0, 20, 66, 1, 1, 1, 96, 0, 0, 3, 0, 176, 0, 0, 3, 0, 0, 3, 0, 93, 160, 2,
      162, 0, 1, 0, 10, 68, 1, 193, 114, 180, 98, 64, 0, 0, 1]"
  by (simp add: hevc_wire_def hevc_header_def hevc_A_high_def hevc_A_def array_wire_def
      entry_wire_def be16_def be32_def NALU_VPS_def NALU_SPS_def NALU_PPS_def)

lemma hevc_read_A_high:
  "hevc_RecordRead b0
     [1, 17, 96, 0, 0, 0, 176, 0, 80, 240, 0, 0, 93, 240, 0, 63, 63, 31, 31, 0, 0, 3, 3,
      160, 0, 1, 0, 5, 64, 1, 12, 1, 255,
      161, 0, 1, 0, 20, 66, 1, 1, 1, 96, 0, 0, 3, 0, 176, 0, 0, 3, 0, 0, 3, 0, 93, 160, 2,
      162, 0, 1, 0, 10, 68, 1, 193, 114, 180, 98, 64, 0, 0, 1]
   = (None, hevc_A\<lparr>GenertalProfileIndicator := 17, ParallelismType := 3,
        ChromaFormatIndicator := 3, hevc_BitDepthLumaMinus8 := 7,
        hevc_BitDepthChromaMinus8 := 7\<rparr>, [])"
  by (simp add: hevc_RecordRead_def binary_Read_def ReadFull_def from_be16_def NaluArray_zero_def
      hevc_A_def NALU_VPS_def NALU_SPS_def NALU_PPS_def replicate_numeral
      read_entries.simps hevc_read_arrays.simps)

text \<open>
  Claim C1, at an HEVC record within its ranges: the record of scenario A with the tier flag
  set. \<open>RecordWrite\<close> succeeds, and \<open>RecordRead\<close> of what it wrote returns another record: the
  tier flag is lost and shows up as bit 4 of the profile indicator (17 for 1), the parallelism
  type and the chroma format are 3 and the bit depths 7, where the record has 0.
\<close>

theorem hevc_roundtrip_fails:
  "hevc_RecordWrite hevc_A_high buffer = Inr \<lparr>written = hevc_wire hevc_A_high, room = None\<rparr>
   \<and> hevc_RecordRead hevc_zero (hevc_wire hevc_A_high)
       = (None, hevc_A\<lparr>GeneralTierFlag := False, GenertalProfileIndicator := 17,
            ParallelismType := 3, ChromaFormatIndicator := 3, hevc_BitDepthLumaMinus8 := 7,
            hevc_BitDepthChromaMinus8 := 7\<rparr>, [])
   \<and> hevc_A\<lparr>GeneralTierFlag := False, GenertalProfileIndicator := 17,
            ParallelismType := 3, ChromaFormatIndicator := 3, hevc_BitDepthLumaMinus8 := 7,
            hevc_BitDepthChromaMinus8 := 7\<rparr> \<noteq> hevc_A_high
   \<and> GeneralTierFlag hevc_A_high \<and> GenertalProfileIndicator hevc_A_high = 1
   \<and> ParallelismType hevc_A_high = 0 \<and> ChromaFormatIndicator hevc_A_high = 0
   \<and> hevc_BitDepthLumaMinus8 hevc_A_high = 0 \<and> hevc_BitDepthChromaMinus8 hevc_A_high = 0"
proof -
  have 1: "hevc_RecordRead hevc_zero (hevc_wire hevc_A_high)
       = (None, hevc_A\<lparr>GeneralTierFlag := False, GenertalProfileIndicator := 17,
            ParallelismType := 3, ChromaFormatIndicator := 3, hevc_BitDepthLumaMinus8 := 7,
            hevc_BitDepthChromaMinus8 := 7\<rparr>, [])"
    unfolding hevc_wire_A_high hevc_read_A_high by (simp add: hevc_A_def)
  show ?thesis
    unfolding 1 by (simp add: hevc_RecordWrite_wire Write_buffer) (simp add: hevc_A_high_def hevc_A_def)
qed

section \<open>Decoding a source that ends too early\<close>

lemma reads_prefixI:
  assumes "\<And>s x r'. f s = (None, x, r') \<Longrightarrow>
      \<exists>c. s = c @ r' \<and> (\<forall>t. f (c @ t) = (None, x, t))
          \<and> (\<forall>k < length c. \<exists>e x'. f (take k c) = (Some e, x', []) \<and> short_read e)"
    and "\<And>s e x r'. f s = (Some e, x, r') \<Longrightarrow> short_read e \<and> r' = []"
  shows "reads_prefix f"
  unfolding reads_prefix_def
proof (intro allI impI)
  fix s err x r'
  assume h: "f s = (err, x, r')"
  show "case err of
           None \<Rightarrow>
             (\<exists>c. s = c @ r' \<and> (\<forall>t. f (c @ t) = (None, x, t))
                  \<and> (\<forall>k < length c. \<exists>e x'. f (take k c) = (Some e, x', []) \<and> short_read e))
         | Some e \<Rightarrow> short_read e \<and> r' = []"
  proof (cases err)
    case None
    then show ?thesis using assms(1) [of s x r'] h by simp
  next
    case (Some e)
    then show ?thesis using assms(2) [of s e x r'] h by simp
  qed
qed

lemma reads_prefix_None:
  assumes "reads_prefix f" and "f s = (None, x, r')"
  shows "\<exists>c. s = c @ r' \<and> (\<forall>t. f (c @ t) = (None, x, t))
          \<and> (\<forall>k < length c. \<exists>e x'. f (take k c) = (Some e, x', []) \<and> short_read e)"
  using assms unfolding reads_prefix_def by fastforce

lemma reads_prefix_Some:
  assumes "reads_prefix f" and "f s = (Some e, x, r')"
  shows "short_read e \<and> r' = []"
  using assms unfolding reads_prefix_def by fastforce

lemma reads_prefix_ReadFull: "reads_prefix (ReadFull n)"
proof (rule reads_prefixI)
  fix s x r'
  assume h: "ReadFull n s = (None, x, r')"
  then have n: "n \<le> length s" and x: "x = take n s" and r: "r' = drop n s"
    by (auto simp: ReadFull_def split: if_splits)
  have "s = x @ r'" by (simp add: x r)
  moreover have "\<forall>t. ReadFull n (x @ t) = (None, x, t)"
    using n by (simp add: ReadFull_def x)
  moreover have "\<forall>k < length x. \<exists>e x'. ReadFull n (take k x) = (Some e, x', []) \<and> short_read e"
    using n by (auto simp: ReadFull_def x short_read_def)
  ultimately show "\<exists>c. s = c @ r' \<and> (\<forall>t. ReadFull n (c @ t) = (None, x, t))
          \<and> (\<forall>k < length c. \<exists>e x'. ReadFull n (take k c) = (Some e, x', []) \<and> short_read e)"
    by blast
next
  fix s e x r'
  assume "ReadFull n s = (Some e, x, r')"
  then show "short_read e \<and> r' = []"
    by (auto simp: ReadFull_def short_read_def split: if_splits)
qed

lemma reads_prefix_return: "reads_prefix (\<lambda>s. (None, x, s))"
  by (rule reads_prefixI) auto

lemma reads_prefix_bindR:
  assumes f: "reads_prefix f" and g: "\<And>x. reads_prefix (g x)"
  shows "reads_prefix (bindR f d g)"
proof (rule reads_prefixI)
  fix s z r'
  assume h: "bindR f d g s = (None, z, r')"
  obtain e1 x1 r1 where fs: "f s = (e1, x1, r1)" by (cases "f s")
  from h fs have e1: "e1 = None" and gs: "g x1 r1 = (None, z, r')"
    by (auto simp: bindR_def split: option.splits)
  from reads_prefix_None [OF f fs [unfolded e1]] obtain c1 where c1: "s = c1 @ r1"
    and f1: "\<And>t. f (c1 @ t) = (None, x1, t)"
    and f2: "\<And>k. k < length c1 \<Longrightarrow> \<exists>e x'. f (take k c1) = (Some e, x', []) \<and> short_read e"
    by blast
  from reads_prefix_None [OF g gs] obtain c2 where c2: "r1 = c2 @ r'"
    and g1: "\<And>t. g x1 (c2 @ t) = (None, z, t)"
    and g2: "\<And>k. k < length c2 \<Longrightarrow> \<exists>e x'. g x1 (take k c2) = (Some e, x', []) \<and> short_read e"
    by blast
  have a: "s = (c1 @ c2) @ r'" by (simp add: c1 c2)
  have b: "bindR f d g ((c1 @ c2) @ t) = (None, z, t)" for t
    using f1 [of "c2 @ t"] g1 [of t] by (simp add: bindR_def)
  have c: "\<exists>e x'. bindR f d g (take k (c1 @ c2)) = (Some e, x', []) \<and> short_read e"
    if k: "k < length (c1 @ c2)" for k
  proof (cases "k < length c1")
    case True
    from f2 [OF True] obtain e x' where "f (take k c1) = (Some e, x', [])" "short_read e" by blast
    then show ?thesis using True by (auto simp: bindR_def)
  next
    case False
    then have t: "take k (c1 @ c2) = c1 @ take (k - length c1) c2" by simp
    have "k - length c1 < length c2" using k False by simp
    from g2 [OF this] obtain e x' where "g x1 (take (k - length c1) c2) = (Some e, x', [])"
      "short_read e" by blast
    then show ?thesis
      unfolding t using f1 [of "take (k - length c1) c2"] by (simp add: bindR_def)
  qed
  from a b c show "\<exists>c. s = c @ r' \<and> (\<forall>t. bindR f d g (c @ t) = (None, z, t))
          \<and> (\<forall>k < length c. \<exists>e x'. bindR f d g (take k c) = (Some e, x', []) \<and> short_read e)"
    by blast
next
  fix s e z r'
  assume h: "bindR f d g s = (Some e, z, r')"
  obtain e1 x1 r1 where fs: "f s = (e1, x1, r1)" by (cases "f s")
  show "short_read e \<and> r' = []"
  proof (cases e1)
    case None
    then have "g x1 r1 = (Some e, z, r')" using h fs by (simp add: bindR_def)
    then show ?thesis using g by (rule reads_prefix_Some [rotated])
  next
    case (Some e')
    then have "e' = e" "r1 = r'" using h fs by (simp_all add: bindR_def)
    then show ?thesis using reads_prefix_Some [OF f fs [unfolded Some]] by simp
  qed
qed















lemma dovi_RecordRead_bindR:
  "dovi_RecordRead b =
     bindR (ReadFull 24) (\<lambda>_. b)
       (\<lambda>tmp s. (None,
           b\<lparr>VersionMajor := tmp ! 0,
             VersionMinor := tmp ! 1,
             Profile := drop_bit 1 (tmp ! 2),
             Level := push_bit 5 (tmp ! 2 AND 1) OR drop_bit 3 (tmp ! 3 AND 248),
             RPUPresent := (tmp ! 3 AND 4 > 0),
             ELPresent := (tmp ! 3 AND 2 > 0),
             BLPresent := (tmp ! 3 AND 1 > 0),
             BLSignalCompatibilityID := drop_bit 4 (tmp ! 4)\<rparr>, s))"
  by (rule ext)
    (simp add: dovi_RecordRead_def bindR_def binary_Read_def split: prod.splits option.splits)

lemma reads_prefix_dovi_RecordRead: "reads_prefix (dovi_RecordRead b)"
  unfolding dovi_RecordRead_bindR
  by (intro reads_prefix_bindR reads_prefix_ReadFull reads_prefix_return)








section \<open>The HEVC codec: decoding what was encoded\<close>

lemma word_lt_no_bit: "(x::'a::len word) < 2 ^ n \<Longrightarrow> n \<le> m \<Longrightarrow> \<not> bit x m"
proof -
  assume a: "x < 2 ^ n" and b: "n \<le> m"
  have "x AND mask n = x" using a by (rule less_mask_eq)
  then have "bit x m = bit (x AND mask n) m" by simp
  then show ?thesis using b by (simp add: bit_simps)
qed

lemma be32_back:
  "push_bit 24 (ucast (be32 x ! 0)) OR push_bit 16 (ucast (be32 x ! 1))
     OR push_bit 8 (ucast (be32 x ! 2)) OR ucast (be32 x ! 3) = x"
proof (rule bit_eqI)
  fix n
  assume "possible_bit TYPE(32 word) n"
  then have n: "n < 32" by simp
  consider "n < 8" | "8 \<le> n" "n < 16" | "16 \<le> n" "n < 24" | "24 \<le> n" by linarith
  then show "bit (push_bit 24 (ucast (be32 x ! 0)) OR push_bit 16 (ucast (be32 x ! 1))
     OR push_bit 8 (ucast (be32 x ! 2)) OR ucast (be32 x ! 3) :: 32 word) n = bit x n"
    using n by cases (auto simp: be32_def bit_simps)
qed

lemma be48_back:
  assumes "g < 2 ^ 48"
  shows "push_bit 40 (ucast (be16 (ucast (drop_bit 32 g)) ! 0))
     OR push_bit 32 (ucast (be16 (ucast (drop_bit 32 g)) ! 1))
     OR push_bit 24 (ucast (be32 (ucast g) ! 0)) OR push_bit 16 (ucast (be32 (ucast g) ! 1))
     OR push_bit 8 (ucast (be32 (ucast g) ! 2)) OR ucast (be32 (ucast g) ! 3) = (g :: 64 word)"
proof (rule bit_eqI)
  fix n
  assume "possible_bit TYPE(64 word) n"
  then have n: "n < 64" by simp
  have hi: "\<not> bit g n" if "48 \<le> n"
    using word_lt_no_bit [OF assms that] .
  consider "n < 8" | "8 \<le> n" "n < 16" | "16 \<le> n" "n < 24" | "24 \<le> n" "n < 32"
    | "32 \<le> n" "n < 40" | "40 \<le> n" "n < 48" | "48 \<le> n" by linarith
  then show "bit (push_bit 40 (ucast (be16 (ucast (drop_bit 32 g)) ! 0))
     OR push_bit 32 (ucast (be16 (ucast (drop_bit 32 g)) ! 1))
     OR push_bit 24 (ucast (be32 (ucast g) ! 0)) OR push_bit 16 (ucast (be32 (ucast g) ! 1))
     OR push_bit 8 (ucast (be32 (ucast g) ! 2)) OR ucast (be32 (ucast g) ! 3) :: 64 word) n = bit g n"
    using n hi by cases (auto simp: be16_def be32_def bit_simps)
qed

lemma be16_back: "push_bit 8 (ucast (be16 x ! 0)) OR ucast (be16 x ! 1) = x"
  using from_be16_be16 [of x "[]"] by (simp add: from_be16_def)

lemma mssi_back:
  assumes "m < 2 ^ 12"
  shows "push_bit 8 (ucast (be16 (m OR 0xF000) ! 0 AND 15)) OR ucast (be16 (m OR 0xF000) ! 1)
     = (m :: 16 word)"
proof (rule bit_eqI)
  fix n
  assume "possible_bit TYPE(16 word) n"
  then have n: "n < 16" by simp
  have hi: "\<not> bit m n" if "12 \<le> n"
    using word_lt_no_bit [OF assms that] .
  have f: "(0xF000 :: 16 word) = push_bit 12 (mask 4)" by (simp add: mask_eq_exp_minus_1)
  have m15: "(15 :: byte) = mask 4" by (simp add: mask_eq_exp_minus_1)
  consider "n < 8" | "8 \<le> n" "n < 12" | "12 \<le> n" by linarith
  then show "bit (push_bit 8 (ucast (be16 (m OR 0xF000) ! 0 AND 15))
      OR ucast (be16 (m OR 0xF000) ! 1) :: 16 word) n = bit m n"
    unfolding f m15 using n hi by cases (auto simp: be16_def bit_simps)
qed

lemma count12_back:
  assumes "m < 2 ^ 12"
  shows "push_bit 8 (ucast (be16 m ! 0 AND 15)) OR ucast (be16 m ! 1) = (m :: 16 word)"
proof (rule bit_eqI)
  fix n
  assume "possible_bit TYPE(16 word) n"
  then have n: "n < 16" by simp
  have hi: "\<not> bit m n" if "12 \<le> n"
    using word_lt_no_bit [OF assms that] .
  have m15: "(15 :: byte) = mask 4" by (simp add: mask_eq_exp_minus_1)
  consider "n < 8" | "8 \<le> n" "n < 12" | "12 \<le> n" by linarith
  then show "bit (push_bit 8 (ucast (be16 m ! 0 AND 15)) OR ucast (be16 m ! 1) :: 16 word) n = bit m n"
    unfolding m15 using n hi by cases (auto simp: be16_def bit_simps)
qed

lemma byte_masks:
  "(3 :: byte) = mask 2" "(7 :: byte) = mask 3" "(15 :: byte) = mask 4" "(31 :: byte) = mask 5"
  "(63 :: byte) = mask 6" "(16 :: byte) = 2 ^ 4" "(128 :: byte) = 2 ^ 7" "(1 :: byte) = mask 1"
  by (simp_all add: mask_eq_exp_minus_1)

lemma bit_16: "bit (16 :: int) n \<longleftrightarrow> n = 4"
  using bit_exp_iff [of 4 n, where ?'a = int] by auto

lemma bit_128: "bit (128 :: int) n \<longleftrightarrow> n = 7"
  using bit_exp_iff [of 7 n, where ?'a = int] by auto

lemma or63_and3: "((x :: byte) OR 63) AND 3 = 3"
  by (rule bit_eqI) (auto simp: byte_masks(1,5) bit_simps)

lemma or31_and7: "((x :: byte) OR 31) AND 7 = 7"
  by (rule bit_eqI) (auto simp: byte_masks(2,4) bit_simps)

lemma hevc_byte1_space:
  assumes "g < 4"
  shows "drop_bit 6 ((push_bit 6 g OR (p AND 31)) OR (if t then 16 else 0)) = (g :: byte)"
proof (rule bit_eqI)
  fix n
  assume "possible_bit TYPE(byte) n"
  then have n: "n < 8" by simp
  have hi: "n < 2 \<or> \<not> bit g n"
    using word_lt_no_bit [of g 2 n] assms by (cases "n < 2") simp_all
  show "bit (drop_bit 6 ((push_bit 6 g OR (p AND 31)) OR (if t then 16 else 0)) :: byte) n = bit g n"
    unfolding byte_masks(4) using n hi by (auto simp: bit_simps bit_16)
qed

lemma hevc_byte1_tier:
  "\<not> (drop_bit 5 ((push_bit 6 g OR (p AND 31)) OR (if t then 16 else 0)) AND 1 > (0 :: byte))"
proof -
  have "drop_bit 5 ((push_bit 6 g OR (p AND 31)) OR (if t then 16 else 0)) AND 1 = (0 :: byte)"
    unfolding byte_masks(4,8) by (rule bit_eqI) (auto simp: bit_simps bit_16)
  then show ?thesis by simp
qed

lemma hevc_byte1_profile:
  "((push_bit 6 g OR (p AND 31)) OR (if t then 16 else 0)) AND 31
     = (p AND 31) OR (if t then 16 else (0 :: byte))"
  unfolding byte_masks(4) by (rule bit_eqI) (auto simp: bit_simps bit_16)

lemma no_high_bit:
  fixes x :: byte
  assumes "x < 2 ^ k"
  shows "n < k \<or> \<not> bit x n"
  using word_lt_no_bit [OF assms, of n] by (cases "n < k") simp_all

lemma hevc_byte21:
  fixes c t l nt :: byte
  assumes "c < 4" and "nt < 8" and "t < 2" and "l < 4"
  defines "v \<equiv> push_bit 6 c OR push_bit 3 (nt AND 7) OR push_bit 2 (t AND 1) OR (l AND 3)"
  shows "drop_bit 6 v = c" and "drop_bit 3 v AND 7 = nt" and "drop_bit 2 v AND 1 = t"
    and "v AND 3 = l"
proof -
  have c: "n < 2 \<or> \<not> bit c n" for n using no_high_bit [of c 2 n] assms(1) by simp
  have nt: "n < 3 \<or> \<not> bit nt n" for n using no_high_bit [of nt 3 n] assms(2) by simp
  have t: "n < 1 \<or> \<not> bit t n" for n using no_high_bit [of t 1 n] assms(3) by simp
  have l: "n < 2 \<or> \<not> bit l n" for n using no_high_bit [of l 2 n] assms(4) by simp
  show "drop_bit 6 v = c"
  proof (rule bit_eqI)
    fix n
    assume "possible_bit TYPE(byte) n"
    then have n: "n < 8" by simp
    show "bit (drop_bit 6 v) n = bit c n"
      unfolding v_def byte_masks(1,2,8) using n c [of n] by (auto simp: bit_simps)
  qed
  show "drop_bit 3 v AND 7 = nt"
  proof (rule bit_eqI)
    fix n
    assume "possible_bit TYPE(byte) n"
    then have n: "n < 8" by simp
    show "bit (drop_bit 3 v AND 7) n = bit nt n"
      unfolding v_def byte_masks(1,2,8) using n nt [of n] by (auto simp: bit_simps)
  qed
  show "drop_bit 2 v AND 1 = t"
  proof (rule bit_eqI)
    fix n
    assume "possible_bit TYPE(byte) n"
    then have n: "n < 8" by simp
    show "bit (drop_bit 2 v AND 1) n = bit t n"
      unfolding v_def byte_masks(1,2,8) using n t [of n] by (auto simp: bit_simps)
  qed
  show "v AND 3 = l"
  proof (rule bit_eqI)
    fix n
    assume "possible_bit TYPE(byte) n"
    then have n: "n < 8" by simp
    show "bit (v AND 3) n = bit l n"
      unfolding v_def byte_masks(1,2,8) using n l [of n] by (auto simp: bit_simps)
  qed
qed

lemma hevc_array_byte:
  fixes ty :: byte and ac :: bool
  assumes "ty < 64"
  defines "a \<equiv> (ty AND 63) OR (if ac then 128 else 0)"
  shows "(drop_bit 7 a > 0) = ac" and "a AND 63 = ty"
proof -
  have ty: "n < 6 \<or> \<not> bit ty n" for n using no_high_bit [of ty 6 n] assms(1) by simp
  have "drop_bit 7 a = (if ac then 1 else 0)"
  proof (rule bit_eqI)
    fix n
    assume "possible_bit TYPE(byte) n"
    then have n: "n < 8" by simp
    show "bit (drop_bit 7 a) n = bit (if ac then 1 else 0 :: byte) n"
      unfolding a_def byte_masks(5) using n ty [of "7 + n"] by (auto simp: bit_simps bit_128)
  qed
  then show "(drop_bit 7 a > 0) = ac" by simp
  show "a AND 63 = ty"
  proof (rule bit_eqI)
    fix n
    assume "possible_bit TYPE(byte) n"
    then have n: "n < 8" by simp
    show "bit (a AND 63) n = bit ty n"
      unfolding a_def byte_masks(5) using n ty [of n] by (auto simp: bit_simps bit_128)
  qed
qed

lemma hevc_read_arrays_step:
  assumes "i < n" and "NALUnitType a < 64" and "length (NALUs a) < 4096"
    and "\<forall>nalu \<in> set (NALUs a). length nalu < 65536"
  shows "hevc_read_arrays i n arrs (array_wire a @ rest)
           = hevc_read_arrays (Suc i) n (arrs[i := a]) rest"
proof -
  let ?b0 = "(NALUnitType a AND 63) OR (if ArrayCompleteness a then 128 else 0)"
  let ?cnt = "of_nat (length (NALUs a)) :: 16 word"
  let ?tmp = "[?b0, be16 ?cnt ! 0, be16 ?cnt ! 1]"
  let ?body = "concat (map entry_wire (NALUs a)) @ rest"
  have w: "array_wire a @ rest = ?tmp @ ?body"
    by (simp add: array_wire_def be16_def)
  have 1: "binary_Read 3 (?tmp @ ?body) = (Inr ?tmp, ?body)"
    by (rule binary_Read_append) simp
  have c: "?cnt < 2 ^ 12"
    using assms(3) by (simp add: word_less_nat_alt unat_of_nat)
  have 2: "unat (push_bit 8 (ucast (?tmp ! 1 AND 15)) OR ucast (?tmp ! 2) :: 16 word)
      = length (NALUs a)"
    using count12_back [OF c] assms(3) by (simp add: unat_of_nat)
  have 3: "read_entries 0 (length (NALUs a)) (replicate (length (NALUs a)) []) ?body
      = (None, NALUs a, rest)"
    using assms(4) by (rule read_entries_fresh)
  have 4: "\<lparr>ArrayCompleteness = (drop_bit 7 (?tmp ! 0) > 0), NALUnitType = ?tmp ! 0 AND 63,
      NALUs = NALUs a\<rparr> = a"
    using hevc_array_byte [OF assms(2), of "ArrayCompleteness a"] by simp
  show ?thesis
    unfolding w
    by (subst hevc_read_arrays.simps) (simp only: assms(1) if_True 1 2 3 4 Let_def prod.case sum.case option.case)
qed

lemma hevc_read_arrays_done: "hevc_read_arrays n n arrs r = (None, arrs, r)"
  by (simp add: hevc_read_arrays.simps)

lemma hevc_read_arrays_wire:
  assumes "\<forall>a \<in> set ys. NALUnitType a < 64 \<and> length (NALUs a) < 4096
             \<and> (\<forall>nalu \<in> set (NALUs a). length nalu < 65536)"
    and "length arrs = n" and "i + length ys = n"
  shows "hevc_read_arrays i n arrs (concat (map array_wire ys) @ rest) = (None, take i arrs @ ys, rest)"
  using assms
proof (induction ys arbitrary: i arrs)
  case Nil
  then show ?case by (simp add: hevc_read_arrays_done)
next
  case (Cons y ys)
  have i: "i < n" using Cons.prems(3) by simp
  have "hevc_read_arrays i n arrs (concat (map array_wire (y # ys)) @ rest)
      = hevc_read_arrays (Suc i) n (arrs[i := y]) (concat (map array_wire ys) @ rest)"
    using hevc_read_arrays_step [OF i, of y] Cons.prems(1) by simp
  also have "\<dots> = (None, take (Suc i) (arrs[i := y]) @ ys, rest)"
    using Cons.prems by (intro Cons.IH) simp_all
  also have "take (Suc i) (arrs[i := y]) = take i arrs @ [y]"
    using i Cons.prems(2) by (simp add: take_Suc_conv_app_nth)
  finally show ?case by simp
qed

lemma hevc_roundtrip:
  assumes "hevc_valid b"
  shows "hevc_RecordRead b0 (hevc_wire b @ rest) = (None, hevc_read_back b, rest)"
proof -
  let ?tmp = "hevc_header b"
  let ?n = "length (NaluArrays b)"
  let ?body = "concat (map array_wire (NaluArrays b)) @ rest"
  have v: "GeneralProfileSpace b < 4" "GenertalProfileIndicator b < 32"
    "GeneralConstraintIndicatorFlags b < 2 ^ 48" "MinSpatialSegmentationIndicator b < 2 ^ 12"
    "ConstantFrameRate b < 4" "NumTemporalLayers b < 8" "TemporalIDNested b < 2"
    "hevc_LengthSizeMinusOne b < 4" "?n < 256"
    and a: "\<forall>a \<in> set (NaluArrays b). NALUnitType a < 64 \<and> length (NALUs a) < 4096
            \<and> (\<forall>nalu \<in> set (NALUs a). length nalu < 65536)"
    using assms by (simp_all add: hevc_valid_def)
  have 1: "binary_Read 23 (?tmp @ ?body) = (Inr ?tmp, ?body)"
    by (rule binary_Read_append) (rule length_hevc_header)
  have t0: "?tmp ! 0 = hevc_ConfigurationVersion b"
    and t12: "?tmp ! 12 = GeneralLevelIndicator b"
    by (simp_all add: hevc_header_def be16_def be32_def)
  have t1a: "drop_bit 6 (?tmp ! Suc 0) = GeneralProfileSpace b"
    using hevc_byte1_space [OF v(1), of "GenertalProfileIndicator b" "GeneralTierFlag b"]
    by (simp add: hevc_header_def)
  have t1b: "(drop_bit 5 (?tmp ! Suc 0) AND 1 > 0) = False"
    using hevc_byte1_tier [of "GeneralProfileSpace b" "GenertalProfileIndicator b" "GeneralTierFlag b"]
    by (simp add: hevc_header_def)
  have t1c: "?tmp ! Suc 0 AND 31 = GenertalProfileIndicator b OR (if GeneralTierFlag b then 16 else 0)"
    using hevc_byte1_profile [of "GeneralProfileSpace b" "GenertalProfileIndicator b" "GeneralTierFlag b"]
    by (simp add: hevc_header_def lt32_and31 [OF v(2)])
  have t2: "push_bit 24 (ucast (?tmp ! 2)) OR push_bit 16 (ucast (?tmp ! 3))
       OR push_bit 8 (ucast (?tmp ! 4)) OR ucast (?tmp ! 5) = GeneralProfileCompatibilityFlags b"
    using be32_back [of "GeneralProfileCompatibilityFlags b"]
    by (simp add: hevc_header_def be16_def be32_def)
  have t6: "push_bit 40 (ucast (?tmp ! 6)) OR push_bit 32 (ucast (?tmp ! 7))
       OR push_bit 24 (ucast (?tmp ! 8)) OR push_bit 16 (ucast (?tmp ! 9))
       OR push_bit 8 (ucast (?tmp ! 10)) OR ucast (?tmp ! 11) = GeneralConstraintIndicatorFlags b"
    using be48_back [OF v(3)]
    by (simp add: hevc_header_def be16_def be32_def)
  have t13: "push_bit 8 (ucast (?tmp ! 13 AND 15)) OR ucast (?tmp ! 14)
       = MinSpatialSegmentationIndicator b"
    using mssi_back [OF v(4)]
    by (simp add: hevc_header_def be16_def be32_def)
  have t15: "?tmp ! 15 AND 3 = 3" "?tmp ! 16 AND 3 = 3" "?tmp ! 17 AND 7 = 7" "?tmp ! 18 AND 7 = 7"
    by (simp_all add: hevc_header_def be16_def be32_def or63_and3 or31_and7)
  have t19: "push_bit 8 (ucast (?tmp ! 19)) OR ucast (?tmp ! 20) = AvgFrameRate b"
    using be16_back [of "AvgFrameRate b"]
    by (simp add: hevc_header_def be16_def be32_def)
  have t21: "drop_bit 6 (?tmp ! 21) = ConstantFrameRate b"
    "drop_bit 3 (?tmp ! 21) AND 7 = NumTemporalLayers b"
    "drop_bit 2 (?tmp ! 21) AND 1 = TemporalIDNested b"
    "?tmp ! 21 AND 3 = hevc_LengthSizeMinusOne b"
    using hevc_byte21 [OF v(5,6,7,8)]
    by (simp_all add: hevc_header_def be16_def be32_def)
  have t22: "unat (?tmp ! 22) = ?n"
    using v(9) by (simp add: hevc_header_def be16_def be32_def unat_of_nat)
  have 2: "hevc_read_arrays 0 ?n (replicate ?n NaluArray_zero) ?body = (None, NaluArrays b, rest)"
    using hevc_read_arrays_wire [OF a, of "replicate ?n NaluArray_zero" ?n 0 rest] by simp
  have "hevc_RecordRead b0 (?tmp @ ?body) = (None, hevc_read_back b, rest)"
    unfolding hevc_RecordRead_def 1
    by (simp add: Let_def t0 t12 t1a t1b t1c t2 t6 t13 t15 t19 t21 t22 2 hevc_read_back_def)
  then show ?thesis by (simp add: hevc_wire_def)
qed

section \<open>Values beyond their field width\<close>

lemma Write_error: "Write bs w = Inl e \<Longrightarrow> e = ErrShortWrite"
  by (cases "room w") (auto simp: Write_def split: if_splits)

lemma u16_of_nat_mod: "(of_nat (n mod 65536) :: 16 word) = of_nat n"
  by (simp add: word_of_nat_eq_iff take_bit_eq_mod)

lemma count5_truncated: "((of_nat n :: byte) OR 224) AND 31 = of_nat (n mod 32)"
proof -
  have m: "(31 :: byte) = mask 5" by (simp add: mask_eq_exp_minus_1)
  have "(of_nat (n mod 32) :: byte) = of_nat (take_bit 5 n)"
    by (simp add: take_bit_eq_mod)
  also have "\<dots> = take_bit 5 (of_nat n)"
    by (simp only: take_bit_of_nat)
  also have "\<dots> = of_nat n AND 31"
    by (simp only: take_bit_eq_mask m)
  also have "\<dots> = ((of_nat n :: byte) OR 224) AND 31"
    by (simp add: bit.conj_disj_distrib2)
  finally show ?thesis by simp
qed

lemma hevc_valid_nal: "n < 65536 \<Longrightarrow> hevc_valid (hevc_nal n)"
  by (simp add: hevc_valid_def hevc_nal_def NALU_SPS_def)

lemma hevc_read_back_nal: "hevc_read_back (hevc_nal n) = hevc_nal n"
  by (simp add: hevc_read_back_def hevc_nal_def)

lemma hevc_wire_nal:
  "hevc_wire (hevc_nal n) =
     [1, 1, 96, 0, 0, 0, 176, 0, 80, 240, 0, 0, 93, 240, 0, 63, 63, 31, 31, 0, 0, 3, 1, 161, 0, 1]
     @ be16 (of_nat n) @ replicate n 66"
  by (simp add: hevc_wire_def hevc_header_def hevc_nal_def array_wire_def entry_wire_def
      be16_def be32_def NALU_SPS_def)

lemma write_nalu_buffer:
  "hevc_write_nalu nalu buffer
     = Inr \<lparr>written = be16 (of_nat (length nalu mod 65536)) @ nalu, room = None\<rparr>"
  by (simp add: write_nalu_Write Write_buffer entry_wire_def u16_of_nat_mod)

lemma write_entry_buffer:
  "avc_write_entry nalu buffer
     = Inr \<lparr>written = be16 (of_nat (length nalu mod 65536)) @ nalu, room = None\<rparr>"
  by (simp add: write_entry_Write Write_buffer entry_wire_def u16_of_nat_mod)

lemma avc_wire_count: "avc_wire a ! 5 = of_nat (length (SequenceParameterSets a)) OR 224"
  by (simp add: avc_wire_def)

text \<open>
  Claim C4, as the code has it. \<open>RecordWrite\<close> checks no width and has no overflow error: it
  fails only with the error of the sink, and into a buffer it succeeds for every record. A NAL
  unit or parameter set is written whole after a 16-bit prefix that holds its length modulo
  65536, and the AVC count of sequence parameter sets is written modulo 32 under the three
  reserved ones. An HEVC record within its ranges, so with NAL units of at most 65535 bytes,
  gets its NAL arrays back exactly.
\<close>

theorem encode_checks_no_width:
  "hevc_RecordWrite b buffer = Inr \<lparr>written = hevc_wire b, room = None\<rparr>
   \<and> avc_RecordWrite a buffer = Inr \<lparr>written = avc_wire a, room = None\<rparr>
   \<and> (hevc_RecordWrite b w = Inl e \<or> avc_RecordWrite a w = Inl e \<longrightarrow> e = ErrShortWrite)
   \<and> hevc_write_nalu nalu buffer
       = Inr \<lparr>written = be16 (of_nat (length nalu mod 65536)) @ nalu, room = None\<rparr>
   \<and> avc_write_entry nalu buffer
       = Inr \<lparr>written = be16 (of_nat (length nalu mod 65536)) @ nalu, room = None\<rparr>
   \<and> avc_wire a ! 5 AND 31 = of_nat (length (SequenceParameterSets a) mod 32)
   \<and> (hevc_valid b \<longrightarrow>
        hevc_RecordRead hevc_zero (hevc_wire b) = (None, hevc_read_back b, [])
        \<and> NaluArrays (hevc_read_back b) = NaluArrays b)"
proof (intro conjI impI)
  show "hevc_RecordWrite b buffer = Inr \<lparr>written = hevc_wire b, room = None\<rparr>"
    by (simp add: hevc_RecordWrite_wire Write_buffer)
  show "avc_RecordWrite a buffer = Inr \<lparr>written = avc_wire a, room = None\<rparr>"
    by (simp add: avc_RecordWrite_wire Write_buffer)
  show "hevc_write_nalu nalu buffer
       = Inr \<lparr>written = be16 (of_nat (length nalu mod 65536)) @ nalu, room = None\<rparr>"
    by (rule write_nalu_buffer)
  show "avc_write_entry nalu buffer
       = Inr \<lparr>written = be16 (of_nat (length nalu mod 65536)) @ nalu, room = None\<rparr>"
    by (rule write_entry_buffer)
  show "avc_wire a ! 5 AND 31 = of_nat (length (SequenceParameterSets a) mod 32)"
    by (simp only: avc_wire_count count5_truncated)
next
  assume "hevc_RecordWrite b w = Inl e \<or> avc_RecordWrite a w = Inl e"
  then show "e = ErrShortWrite"
    by (auto simp: hevc_RecordWrite_wire avc_RecordWrite_wire dest: Write_error)
next
  assume "hevc_valid b"
  then show "hevc_RecordRead hevc_zero (hevc_wire b) = (None, hevc_read_back b, [])"
    using hevc_roundtrip [of b hevc_zero "[]"] by simp
next
  show "NaluArrays (hevc_read_back b) = NaluArrays b"
    by (simp add: hevc_read_back_def)
qed

theorem encode_checks_no_width_witness:
  "hevc_RecordWrite (hevc_nal 65535) buffer
     = Inr \<lparr>written =
         [1, 1, 96, 0, 0, 0, 176, 0, 80, 240, 0, 0, 93, 240, 0, 63, 63, 31, 31, 0, 0, 3, 1,
          161, 0, 1, 255, 255] @ replicate 65535 66, room = None\<rparr>
   \<and> hevc_RecordRead hevc_zero
        ([1, 1, 96, 0, 0, 0, 176, 0, 80, 240, 0, 0, 93, 240, 0, 63, 63, 31, 31, 0, 0, 3, 1,
          161, 0, 1, 255, 255] @ replicate 65535 66)
       = (None, hevc_nal 65535, [])"
proof -
  have 1: "hevc_wire (hevc_nal 65535) =
      [1, 1, 96, 0, 0, 0, 176, 0, 80, 240, 0, 0, 93, 240, 0, 63, 63, 31, 31, 0, 0, 3, 1,
       161, 0, 1, 255, 255] @ replicate 65535 66"
    by (simp add: hevc_wire_nal be16_def)
  have 2: "hevc_valid (hevc_nal 65535)"
    by (rule hevc_valid_nal) simp
  show ?thesis
    using encode_checks_no_width [of "hevc_nal 65535" avc_zero buffer EOF "[]"] 2
    by (simp only: 1 hevc_read_back_nal)
qed

text \<open>
  An HEVC record with a NAL unit of 65536 bytes and an AVC record with 32 sequence parameter
  sets: \<open>RecordWrite\<close> succeeds on both, with the length prefix \<open>0x0000\<close> before the 65536
  bytes and with the count byte \<open>0xE0\<close>, a count of 0, before the 32 parameter sets.
\<close>

theorem encode_overflow_counterexample:
  "hevc_RecordWrite (hevc_nal 65536) buffer
     = Inr \<lparr>written =
         [1, 1, 96, 0, 0, 0, 176, 0, 80, 240, 0, 0, 93, 240, 0, 63, 63, 31, 31, 0, 0, 3, 1,
          161, 0, 1, 0, 0] @ replicate 65536 66, room = None\<rparr>
   \<and> avc_RecordWrite avc_32 buffer
     = Inr \<lparr>written =
         [1, 66, 192, 30, 255, 224] @ concat (replicate 32 [0, 1, 103]) @ [1, 0, 2, 104, 206],
         room = None\<rparr>"
proof -
  have 1: "hevc_wire (hevc_nal 65536) =
      [1, 1, 96, 0, 0, 0, 176, 0, 80, 240, 0, 0, 93, 240, 0, 63, 63, 31, 31, 0, 0, 3, 1,
       161, 0, 1, 0, 0] @ replicate 65536 66"
    by (simp add: hevc_wire_nal be16_def)
  have 2: "avc_wire avc_32 =
      [1, 66, 192, 30, 255, 224] @ concat (replicate 32 [0, 1, 103]) @ [1, 0, 2, 104, 206]"
    by (simp add: avc_wire_def avc_32_def avc_66_def avc_has_ext_def entry_wire_def be16_def)
  show ?thesis
    by (simp only: hevc_RecordWrite_wire avc_RecordWrite_wire Write_buffer 1 2)
qed

section \<open>The Dolby Vision codec: decoding what was encoded\<close>

lemma dovi_tmp_bytes:
  "dovi_tmp b =
     [VersionMajor b, VersionMinor b,
      push_bit 1 (Profile b) OR (drop_bit 5 (Level b) AND 1),
      (((push_bit 3 (Level b) AND 248) OR (if RPUPresent b then 4 else 0))
         OR (if ELPresent b then 2 else 0)) OR (if BLPresent b then 1 else 0),
      push_bit 4 (BLSignalCompatibilityID b),
      0, 0, 0, 0, 0, 0, 0, 0, 0, 0, 0, 0, 0, 0, 0, 0, 0, 0, 0]"
  by (simp add: dovi_tmp_def Let_def replicate_24)

lemma bit_small_int:
  "bit (1 :: int) n \<longleftrightarrow> n = 0" "bit (2 :: int) n \<longleftrightarrow> n = 1" "bit (4 :: int) n \<longleftrightarrow> n = 2"
  using bit_exp_iff [of 0 n, where ?'a = int] bit_exp_iff [of 1 n, where ?'a = int]
    bit_exp_iff [of 2 n, where ?'a = int]
  by auto

lemma byte_248: "(248 :: byte) = push_bit 3 (mask 5)"
  by (simp add: mask_eq_exp_minus_1)

lemma dovi_byte2:
  fixes p l :: byte
  assumes "p < 128"
  shows "drop_bit 1 (push_bit 1 p OR (drop_bit 5 l AND 1)) = p"
proof (rule bit_eqI)
  fix n
  assume "possible_bit TYPE(byte) n"
  then have n: "n < 8" by simp
  have p: "n < 7 \<or> \<not> bit p n" using no_high_bit [of p 7 n] assms by simp
  have "bit (drop_bit 1 (push_bit 1 p OR (drop_bit 5 l AND mask 1))) n = bit p n"
    apply (simp only: bit_simps o_def)
    using n p apply (auto simp: bit_simps)
    done
  then show "bit (drop_bit 1 (push_bit 1 p OR (drop_bit 5 l AND 1))) n = bit p n"
    by (simp only: byte_masks(8))
qed

lemma dovi_level_a:
  fixes p l :: byte
  shows "(push_bit 1 p OR (drop_bit 5 l AND 1)) AND 1 = drop_bit 5 l AND 1"
proof -
  have "(push_bit 1 p OR (drop_bit 5 l AND mask 1)) AND mask 1 = drop_bit 5 l AND mask 1"
  proof (rule bit_eqI)
    fix n
    show "bit ((push_bit 1 p OR (drop_bit 5 l AND mask 1)) AND mask 1) n
        = bit (drop_bit 5 l AND mask 1) n"
      apply (simp only: bit_simps o_def)
      apply auto
      done
  qed
  then show ?thesis by (simp only: byte_masks(8))
qed

lemma dovi_level_b:
  fixes l f :: byte
  assumes "f < 8"
  shows "drop_bit 3 (((push_bit 3 l AND 248) OR f) AND 248) = l AND 31"
proof -
  have "drop_bit 3 (((push_bit 3 l AND push_bit 3 (mask 5)) OR f) AND push_bit 3 (mask 5))
      = l AND mask 5"
  proof (rule bit_eqI)
    fix n
    assume "possible_bit TYPE(byte) n"
    then have n: "n < 8" by simp
    have f: "\<not> bit f (3 + n)" using no_high_bit [of f 3 "3 + n"] assms by simp
    show "bit (drop_bit 3 (((push_bit 3 l AND push_bit 3 (mask 5)) OR f) AND push_bit 3 (mask 5))) n
        = bit (l AND mask 5) n"
      apply (simp only: bit_simps o_def)
      using n f apply auto
      done
  qed
  then show ?thesis by (simp only: byte_masks(4) byte_248)
qed

lemma dovi_level_c:
  fixes l :: byte
  assumes "l < 64"
  shows "push_bit 5 (drop_bit 5 l AND 1) OR (l AND 31) = l"
proof -
  have "push_bit 5 (drop_bit 5 l AND mask 1) OR (l AND mask 5) = l"
  proof (rule bit_eqI)
    fix n
    assume "possible_bit TYPE(byte) n"
    then have n: "n < 8" by simp
    have l: "n < 6 \<or> \<not> bit l n" using no_high_bit [of l 6 n] assms by simp
    consider "n < 5" | "n = 5" | "6 \<le> n" by linarith
    then show "bit (push_bit 5 (drop_bit 5 l AND mask 1) OR (l AND mask 5)) n = bit l n"
    proof cases
      case 1
      then show ?thesis by (simp add: bit_simps)
    next
      case 2
      then show ?thesis by (simp add: bit_simps)
    next
      case 3
      then show ?thesis using n l by (simp add: bit_simps)
    qed
  qed
  then show ?thesis by (simp only: byte_masks(4,8))
qed

lemma and_248_low:
  "((x :: byte) AND 248) AND 4 = 0" "((x :: byte) AND 248) AND 2 = 0" "((x :: byte) AND 248) AND 1 = 0"
  by (simp_all add: and.assoc)

lemma or4_and:
  "(((a OR b) OR c) OR d) AND k = (a AND k) OR ((b AND k) OR ((c AND k) OR (d AND (k::byte))))"
  by (simp only: bit.conj_disj_distrib2 or.assoc)

lemma dovi_flags:
  fixes x :: byte and R E B :: bool
  defines "t \<equiv> (((x AND 248) OR (if R then 4 else 0)) OR (if E then 2 else 0))
     OR (if B then 1 else 0)"
  shows "(t AND 4 > 0) = R" and "(t AND 2 > 0) = E" and "(t AND 1 > 0) = B"
proof -
  have 4: "t AND 4 = (if R then 4 else 0)"
    unfolding t_def or4_and and_248_low by (cases R; cases E; cases B) simp_all
  have 2: "t AND 2 = (if E then 2 else 0)"
    unfolding t_def or4_and and_248_low by (cases R; cases E; cases B) simp_all
  have 1: "t AND 1 = (if B then 1 else 0)"
    unfolding t_def or4_and and_248_low by (cases R; cases E; cases B) simp_all
  show "(t AND 4 > 0) = R" unfolding 4 by simp
  show "(t AND 2 > 0) = E" unfolding 2 by simp
  show "(t AND 1 > 0) = B" unfolding 1 by simp
qed

lemma dovi_flags_lt8:
  "((if R then 4 else 0) OR (if E then 2 else 0)) OR (if B then 1 else 0) < (8 :: byte)"
  by (cases R; cases E; cases B) simp_all

lemma dovi_byte4:
  fixes c :: byte
  assumes "c < 16"
  shows "drop_bit 4 (push_bit 4 c) = c"
proof (rule bit_eqI)
  fix n
  assume "possible_bit TYPE(byte) n"
  then have n: "n < 8" by simp
  have c: "n < 4 \<or> \<not> bit c n" using no_high_bit [of c 4 n] assms by simp
  show "bit (drop_bit 4 (push_bit 4 c)) n = bit c n"
    apply (simp only: bit_simps o_def)
    using n c apply (auto simp: bit_simps)
    done
qed

lemma dovi_roundtrip:
  assumes "dovi_valid b"
  shows "dovi_RecordRead b0 (dovi_tmp b @ rest) = (None, b, rest)"
proof -
  let ?f = "((if RPUPresent b then 4 else 0) OR (if ELPresent b then 2 else 0))
     OR (if BLPresent b then 1 else (0 :: byte))"
  let ?t2 = "push_bit 1 (Profile b) OR (drop_bit 5 (Level b) AND 1)"
  let ?t3 = "(((push_bit 3 (Level b) AND 248) OR (if RPUPresent b then 4 else 0))
         OR (if ELPresent b then 2 else 0)) OR (if BLPresent b then 1 else 0)"
  have v: "Profile b < 128" "Level b < 64" "BLSignalCompatibilityID b < 16"
    using assms by (simp_all add: dovi_valid_def)
  have 1: "binary_Read 24 (dovi_tmp b @ rest) = (Inr (dovi_tmp b), rest)"
    by (rule binary_Read_append) (rule dovi_tmp_len)
  have n: "dovi_tmp b ! 0 = VersionMajor b" "dovi_tmp b ! 1 = VersionMinor b"
    "dovi_tmp b ! 2 = ?t2" "dovi_tmp b ! 3 = ?t3"
    "dovi_tmp b ! 4 = push_bit 4 (BLSignalCompatibilityID b)"
    by (simp_all add: dovi_tmp_bytes)
  have t3: "?t3 = (push_bit 3 (Level b) AND 248) OR ?f"
    by (simp only: or.assoc)
  have l: "push_bit 5 (?t2 AND 1) OR drop_bit 3 (?t3 AND 248) = Level b"
    unfolding t3 dovi_level_a dovi_level_b [OF dovi_flags_lt8] by (rule dovi_level_c [OF v(2)])
  have fl: "(?t3 AND 4 > 0) = RPUPresent b" "(?t3 AND 2 > 0) = ELPresent b"
    "(?t3 AND 1 > 0) = BLPresent b"
    by (rule dovi_flags)+
  have "dovi_RecordRead b0 (dovi_tmp b @ rest) =
      (None, b0\<lparr>VersionMajor := VersionMajor b, VersionMinor := VersionMinor b,
         Profile := Profile b, Level := Level b, RPUPresent := RPUPresent b,
         ELPresent := ELPresent b, BLPresent := BLPresent b,
         BLSignalCompatibilityID := BLSignalCompatibilityID b\<rparr>, rest)"
    by (simp only: dovi_RecordRead_def 1 prod.case sum.case n l fl
        dovi_byte2 [OF v(1)] dovi_byte4 [OF v(3)])
  then show ?thesis by simp
qed

end
